theory Spec2Isabelle
  imports Main "HOL-Library.Word"
begin

unbundle bit_operations_syntax

section \<open>Results, panics and the hardware world\<close>

type_synonym byte = "8 word"

text \<open>
  A Go function of this package returns \<open>error\<close> (nil or a transport error handed up from
  the host's GPIO / I2C layer) or dies with a run-time panic.  Both are values here.
  A transport error carries a code that tells one failure from another.
\<close>

datatype error = TransportError nat

datatype panic = NilDereference | IndexOutOfRange int

datatype 'a result = Ok 'a | Err error | Panic panic

datatype DigitalPin = Pin nat

datatype BacklightBus = BacklightHandle nat

datatype event =
    PinDirectionOut DigitalPin
  | PinWrite DigitalPin int
  | PinClose DigitalPin
  | I2CWriteByte byte byte
  | I2CClose
  | BacklightBusClose BacklightBus
  | Sleep nat

text \<open>
  The world outside the driver: the effects that took place, in order (\<open>events\<close>), and the
  outcomes of the fallible hardware calls still to come (\<open>pending\<close>: \<open>None\<close> for a call that
  succeeds, \<open>Some e\<close> for one that fails with \<open>e\<close>; once the list is used up every call
  succeeds).  \<open>Sleep n\<close> is \<open>time.Sleep\<close> of \<open>n\<close> microseconds.
\<close>

record hw =
  events :: "event list"
  pending :: "error option list"

text \<open>
  Modelled from the spec: the capabilities of package \<open>embd\<close> (\<open>DigitalPin.Write\<close>,
  \<open>DigitalPin.SetDirection\<close>, \<open>DigitalPin.Close\<close>, \<open>I2CBus.WriteByte\<close>, \<open>I2CBus.Close\<close>)
  and its constants \<open>embd.Low\<close>, \<open>embd.High\<close> are not part of this repository.  A call either
  takes effect and returns nil, or fails with a transport error and has no effect.
\<close>

definition attempt :: "event \<Rightarrow> hw \<Rightarrow> unit result \<times> hw" where
  "attempt e h =
     (case pending h of
        [] \<Rightarrow> (Ok (), h\<lparr>events := events h @ [e]\<rparr>)
      | None # rest \<Rightarrow> (Ok (), h\<lparr>events := events h @ [e], pending := rest\<rparr>)
      | Some err # rest \<Rightarrow> (Err err, h\<lparr>pending := rest\<rparr>))"

definition Low :: int where "Low = 0"
definition High :: int where "High = 1"

definition time_Sleep :: "nat \<Rightarrow> hw \<Rightarrow> unit result \<times> hw" where
  "time_Sleep us h = (Ok (), h\<lparr>events := events h @ [Sleep us]\<rparr>)"

text \<open>A method call on a nil interface value panics.\<close>

definition pin_Write :: "DigitalPin option \<Rightarrow> int \<Rightarrow> hw \<Rightarrow> unit result \<times> hw" where
  "pin_Write pin v h =
     (case pin of None \<Rightarrow> (Panic NilDereference, h)
      | Some q \<Rightarrow> attempt (PinWrite q v) h)"

definition pin_SetDirection_Out :: "DigitalPin \<Rightarrow> hw \<Rightarrow> unit result \<times> hw" where
  "pin_SetDirection_Out q h = attempt (PinDirectionOut q) h"

definition pin_Close :: "DigitalPin option \<Rightarrow> hw \<Rightarrow> unit result \<times> hw" where
  "pin_Close pin h =
     (case pin of None \<Rightarrow> (Panic NilDereference, h)
      | Some q \<Rightarrow> attempt (PinClose q) h)"

text \<open>
  \<open>andThen m k\<close> is the Go idiom \<open>err := m(); if err != nil { return err }; k()\<close>;
  \<open>run_all\<close> is the loop \<open>for _, f := range functions { err := f(); if err != nil { return err } }\<close>.
  A panic unwinds in the same way.
\<close>

definition andThen ::
  "('s \<Rightarrow> 'a result \<times> 's) \<Rightarrow> ('a \<Rightarrow> 's \<Rightarrow> 'b result \<times> 's) \<Rightarrow> 's \<Rightarrow> 'b result \<times> 's" where
  "andThen m k s =
     (case m s of
        (Ok a, s') \<Rightarrow> k a s'
      | (Err e, s') \<Rightarrow> (Err e, s')
      | (Panic x, s') \<Rightarrow> (Panic x, s'))"

fun run_all :: "('s \<Rightarrow> unit result \<times> 's) list \<Rightarrow> 's \<Rightarrow> unit result \<times> 's" where
  "run_all [] s = (Ok (), s)"
| "run_all (f # fs) s =
     (case f s of
        (Ok u, s') \<Rightarrow> run_all fs s'
      | (Err e, s') \<Rightarrow> (Err e, s')
      | (Panic x, s') \<Rightarrow> (Panic x, s'))"

section \<open>Constants of hd44780.go\<close>

definition writeDelay :: nat where "writeDelay = 37"
definition pulseDelay :: nat where "pulseDelay = 1"
definition clearDelay :: nat where "clearDelay = 1520"

definition lcdInit :: byte where "lcdInit = 0x33"
definition lcdInit4bit :: byte where "lcdInit4bit = 0x32"

definition lcdClearDisplay :: byte where "lcdClearDisplay = 0x01"
definition lcdReturnHome :: byte where "lcdReturnHome = 0x02"
definition lcdSetCGRamAddr :: byte where "lcdSetCGRamAddr = 0x40"
definition lcdSetDDRamAddr :: byte where "lcdSetDDRamAddr = 0x80"

definition lcdCursorMove :: byte where "lcdCursorMove = 0x00"

definition lcdSetEntryMode :: byte where "lcdSetEntryMode = 0x04"
definition lcdEntryDecrement :: byte where "lcdEntryDecrement = 0x00"
definition lcdEntryIncrement :: byte where "lcdEntryIncrement = 0x02"
definition lcdEntryShiftOff :: byte where "lcdEntryShiftOff = 0x00"
definition lcdEntryShiftOn :: byte where "lcdEntryShiftOn = 0x01"

definition lcdSetDisplayMode :: byte where "lcdSetDisplayMode = 0x08"
definition lcdDisplayOff :: byte where "lcdDisplayOff = 0x00"
definition lcdDisplayOn :: byte where "lcdDisplayOn = 0x04"
definition lcdCursorOff :: byte where "lcdCursorOff = 0x00"
definition lcdCursorOn :: byte where "lcdCursorOn = 0x02"
definition lcdBlinkOff :: byte where "lcdBlinkOff = 0x00"
definition lcdBlinkOn :: byte where "lcdBlinkOn = 0x01"

definition lcdSetFunctionMode :: byte where "lcdSetFunctionMode = 0x20"
definition lcd4BitMode :: byte where "lcd4BitMode = 0x00"
definition lcd8BitMode :: byte where "lcd8BitMode = 0x10"
definition lcd1Line :: byte where "lcd1Line = 0x00"
definition lcd2Line :: byte where "lcd2Line = 0x08"
definition lcd5x8Dots :: byte where "lcd5x8Dots = 0x00"
definition lcd5x10Dots :: byte where "lcd5x10Dots = 0x04"

section \<open>The parallel 4-bit bus\<close>

record GPIO4BitBus =
  RS :: "DigitalPin option"
  EN :: "DigitalPin option"
  D4 :: "DigitalPin option"
  D5 :: "DigitalPin option"
  D6 :: "DigitalPin option"
  D7 :: "DigitalPin option"
  Backlight :: "DigitalPin option"


definition GPIO4BitBus_BacklightOn :: "GPIO4BitBus \<Rightarrow> hw \<Rightarrow> unit result \<times> hw" where
  "GPIO4BitBus_BacklightOn bus h =
     (if Backlight bus \<noteq> None then pin_Write (Backlight bus) Low h else (Ok (), h))"

definition GPIO4BitBus_pulseEnable :: "GPIO4BitBus \<Rightarrow> hw \<Rightarrow> unit result \<times> hw" where
  "GPIO4BitBus_pulseEnable bus =
     run_all (map (\<lambda>v. andThen (time_Sleep pulseDelay) (\<lambda>u. pin_Write (EN bus) v))
                  [Low, High, Low])"

definition GPIO4BitBus_Write :: "GPIO4BitBus \<Rightarrow> bool \<Rightarrow> byte \<Rightarrow> hw \<Rightarrow> unit result \<times> hw" where
  "GPIO4BitBus_Write bus rs data =
     (let rsInt = (if rs then High else Low) in
      andThen
        (run_all
          [ pin_Write (RS bus) rsInt,
            pin_Write (D4 bus) (uint (drop_bit 4 data AND 0x01)),
            pin_Write (D5 bus) (uint (drop_bit 5 data AND 0x01)),
            pin_Write (D6 bus) (uint (drop_bit 6 data AND 0x01)),
            pin_Write (D7 bus) (uint (drop_bit 7 data AND 0x01)),
            GPIO4BitBus_pulseEnable bus,
            pin_Write (D4 bus) (uint (data AND 0x01)),
            pin_Write (D5 bus) (uint (drop_bit 1 data AND 0x01)),
            pin_Write (D6 bus) (uint (drop_bit 2 data AND 0x01)),
            pin_Write (D7 bus) (uint (drop_bit 3 data AND 0x01)),
            GPIO4BitBus_pulseEnable bus ])
        (\<lambda>u. time_Sleep writeDelay))"

definition GPIO4BitBus_Close :: "GPIO4BitBus \<Rightarrow> hw \<Rightarrow> unit result \<times> hw" where
  "GPIO4BitBus_Close bus =
     run_all (map pin_Close [RS bus, EN bus, D4 bus, D5 bus, D6 bus, D7 bus, Backlight bus])"

section \<open>The I2C expander bus\<close>

text \<open>
  \<open>I2CPinMap\<close> holds bit positions; its fields carry the suffix \<open>_bit\<close> because \<open>RS\<close>, \<open>EN\<close>,
  \<open>D4\<close> .. \<open>D7\<close> and \<open>Backlight\<close> already name the lines of the parallel bus.  The stored
  backlight flag of \<open>I2CBus\<close> is \<open>BacklightState\<close>.  The I2C handle itself is the one device of
  the world \<open>hw\<close>.
\<close>

record I2CPinMap =
  RS_bit :: byte
  RW_bit :: byte
  EN_bit :: byte
  D4_bit :: byte
  D5_bit :: byte
  D6_bit :: byte
  D7_bit :: byte
  Backlight_bit :: byte

record I2CBus =
  PinMap :: I2CPinMap
  BacklightState :: bool

definition MJKDZPinMap :: I2CPinMap where
  "MJKDZPinMap = \<lparr>RS_bit = 6, RW_bit = 5, EN_bit = 4,
                   D4_bit = 0, D5_bit = 1, D6_bit = 2, D7_bit = 3, Backlight_bit = 7\<rparr>"

definition PCF8574PinMap :: I2CPinMap where
  "PCF8574PinMap = \<lparr>RS_bit = 0, RW_bit = 1, EN_bit = 2,
                     D4_bit = 4, D5_bit = 5, D6_bit = 6, D7_bit = 7, Backlight_bit = 3\<rparr>"

definition i2cAddr :: byte where "i2cAddr = 0x00"

definition I2C_WriteByte :: "byte \<Rightarrow> byte \<Rightarrow> hw \<Rightarrow> unit result \<times> hw" where
  "I2C_WriteByte addr b = attempt (I2CWriteByte addr b)"

text \<open>Go's \<open>x << s\<close> on a byte: the bits shifted out are lost, a count of 8 or more gives 0.\<close>

definition shl :: "byte \<Rightarrow> byte \<Rightarrow> byte" where
  "shl x s = push_bit (unat s) x"

definition I2CBus_pulseEnable :: "I2CBus \<Rightarrow> byte \<Rightarrow> hw \<Rightarrow> unit result \<times> hw" where
  "I2CBus_pulseEnable bus data =
     run_all (map (\<lambda>b. andThen (time_Sleep pulseDelay) (\<lambda>u. I2C_WriteByte i2cAddr b))
                  [data, data OR shl 0x01 (EN_bit (PinMap bus)), data])"

definition I2CBus_Write :: "I2CBus \<Rightarrow> bool \<Rightarrow> byte \<Rightarrow> hw \<Rightarrow> unit result \<times> hw" where
  "I2CBus_Write bus rs data =
     (let instructionHigh =
            0x00 OR shl (drop_bit 4 data AND 0x01) (D4_bit (PinMap bus))
                 OR shl (drop_bit 5 data AND 0x01) (D5_bit (PinMap bus))
                 OR shl (drop_bit 6 data AND 0x01) (D6_bit (PinMap bus))
                 OR shl (drop_bit 7 data AND 0x01) (D7_bit (PinMap bus));
          instructionLow =
            0x00 OR shl (data AND 0x01) (D4_bit (PinMap bus))
                 OR shl (drop_bit 1 data AND 0x01) (D5_bit (PinMap bus))
                 OR shl (drop_bit 2 data AND 0x01) (D6_bit (PinMap bus))
                 OR shl (drop_bit 3 data AND 0x01) (D7_bit (PinMap bus))
      in
      andThen
        (run_all
          (map (\<lambda>ins.
                  let ins1 = (if rs then ins OR shl 0x01 (RS_bit (PinMap bus)) else ins);
                      ins2 = (if BacklightState bus
                              then ins1 OR shl 0x01 (Backlight_bit (PinMap bus)) else ins1)
                  in I2CBus_pulseEnable bus ins2)
               [instructionHigh, instructionLow]))
        (\<lambda>u. time_Sleep writeDelay))"


definition I2CBus_BacklightOn :: "I2CBus \<Rightarrow> hw \<Rightarrow> unit result \<times> I2CBus \<times> hw" where
  "I2CBus_BacklightOn bus h =
     (let bus' = bus\<lparr>BacklightState := True\<rparr>
      in case I2CBus_Write bus' False 0x00 h of (r, h') \<Rightarrow> (r, bus', h'))"

definition I2CBus_Close :: "I2CBus \<Rightarrow> hw \<Rightarrow> unit result \<times> hw" where
  "I2CBus_Close bus = attempt I2CClose"

section \<open>The bus interface and the controller\<close>

datatype HD44780Bus = GPIO4Bit GPIO4BitBus | I2CExpander I2CBus

fun HD44780Bus_Write :: "HD44780Bus \<Rightarrow> bool \<Rightarrow> byte \<Rightarrow> hw \<Rightarrow> unit result \<times> hw" where
  "HD44780Bus_Write (GPIO4Bit b) rs data h = GPIO4BitBus_Write b rs data h"
| "HD44780Bus_Write (I2CExpander b) rs data h = I2CBus_Write b rs data h"


fun HD44780Bus_BacklightOn :: "HD44780Bus \<Rightarrow> hw \<Rightarrow> unit result \<times> HD44780Bus \<times> hw" where
  "HD44780Bus_BacklightOn (GPIO4Bit b) h =
     (case GPIO4BitBus_BacklightOn b h of (r, h') \<Rightarrow> (r, GPIO4Bit b, h'))"
| "HD44780Bus_BacklightOn (I2CExpander b) h =
     (case I2CBus_BacklightOn b h of (r, b', h') \<Rightarrow> (r, I2CExpander b', h'))"

fun HD44780Bus_Close :: "HD44780Bus \<Rightarrow> hw \<Rightarrow> unit result \<times> hw" where
  "HD44780Bus_Close (GPIO4Bit b) h = GPIO4BitBus_Close b h"
| "HD44780Bus_Close (I2CExpander b) h = I2CBus_Close b h"

record HD44780 =
  bus :: HD44780Bus
  eMode :: byte
  dMode :: byte
  fMode :: byte

text \<open>A method of \<open>*HD44780\<close> acts on the controller and the world.\<close>

type_synonym 'a controller_method = "HD44780 \<times> hw \<Rightarrow> 'a result \<times> HD44780 \<times> hw"

definition HD44780_Write :: "bool \<Rightarrow> byte \<Rightarrow> unit controller_method" where
  "HD44780_Write rs data = (\<lambda>(c, h).
     case HD44780Bus_Write (bus c) rs data h of (r, h') \<Rightarrow> (r, c, h'))"

definition HD44780_WriteChar :: "byte \<Rightarrow> unit controller_method" where
  "HD44780_WriteChar v = HD44780_Write True v"

definition HD44780_WriteInstruction :: "byte \<Rightarrow> unit controller_method" where
  "HD44780_WriteInstruction v = HD44780_Write False v"

definition HD44780_lcdInit :: "unit controller_method" where
  "HD44780_lcdInit =
     andThen (HD44780_WriteInstruction lcdInit) (\<lambda>u. HD44780_WriteInstruction lcdInit4bit)"

type_synonym ModeSetter = "HD44780 \<Rightarrow> HD44780"

definition EntryDecrement :: ModeSetter where
  "EntryDecrement x = x\<lparr>eMode := eMode x AND NOT lcdEntryIncrement\<rparr>"
definition EntryIncrement :: ModeSetter where
  "EntryIncrement x = x\<lparr>eMode := eMode x OR lcdEntryIncrement\<rparr>"
definition EntryShiftOff :: ModeSetter where
  "EntryShiftOff x = x\<lparr>eMode := eMode x AND NOT lcdEntryShiftOn\<rparr>"
definition EntryShiftOn :: ModeSetter where
  "EntryShiftOn x = x\<lparr>eMode := eMode x OR lcdEntryShiftOn\<rparr>"

definition DisplayOn :: ModeSetter where
  "DisplayOn x = x\<lparr>dMode := dMode x OR lcdDisplayOn\<rparr>"
definition CursorOff :: ModeSetter where
  "CursorOff x = x\<lparr>dMode := dMode x AND NOT lcdCursorOn\<rparr>"
definition BlinkOff :: ModeSetter where
  "BlinkOff x = x\<lparr>dMode := dMode x AND NOT lcdBlinkOn\<rparr>"

definition FourBitMode :: ModeSetter where
  "FourBitMode x = x\<lparr>fMode := fMode x AND NOT lcd8BitMode\<rparr>"
definition OneLine :: ModeSetter where
  "OneLine x = x\<lparr>fMode := fMode x AND NOT lcd2Line\<rparr>"
definition TwoLine :: ModeSetter where
  "TwoLine x = x\<lparr>fMode := fMode x OR lcd2Line\<rparr>"
definition Dots5x8 :: ModeSetter where
  "Dots5x8 x = x\<lparr>fMode := fMode x AND NOT lcd5x10Dots\<rparr>"

definition HD44780_setEntryMode :: "unit controller_method" where
  "HD44780_setEntryMode = (\<lambda>(c, h). HD44780_WriteInstruction (lcdSetEntryMode OR eMode c) (c, h))"

definition HD44780_setDisplayMode :: "unit controller_method" where
  "HD44780_setDisplayMode = (\<lambda>(c, h). HD44780_WriteInstruction (lcdSetDisplayMode OR dMode c) (c, h))"

definition HD44780_setFunctionMode :: "unit controller_method" where
  "HD44780_setFunctionMode = (\<lambda>(c, h). HD44780_WriteInstruction (lcdSetFunctionMode OR fMode c) (c, h))"

definition HD44780_SetMode :: "ModeSetter list \<Rightarrow> unit controller_method" where
  "HD44780_SetMode modes = (\<lambda>(c, h).
     run_all [HD44780_setEntryMode, HD44780_setDisplayMode, HD44780_setFunctionMode]
       (foldl (\<lambda>x m. m x) c modes, h))"

definition New :: "HD44780Bus \<Rightarrow> ModeSetter list \<Rightarrow> hw \<Rightarrow> HD44780 result \<times> hw" where
  "New b modes h =
     (let controller = \<lparr>bus = b, eMode = 0x00, dMode = 0x00, fMode = 0x00\<rparr>
      in case andThen HD44780_lcdInit (\<lambda>u. HD44780_SetMode modes) (controller, h) of
           (Ok u, c, h') \<Rightarrow> (Ok c, h')
         | (Err e, c, h') \<Rightarrow> (Err e, h')
         | (Panic x, c, h') \<Rightarrow> (Panic x, h'))"

definition NewGPIO4Bit ::
  "DigitalPin option \<Rightarrow> DigitalPin option \<Rightarrow> DigitalPin option \<Rightarrow> DigitalPin option \<Rightarrow>
   DigitalPin option \<Rightarrow> DigitalPin option \<Rightarrow> DigitalPin option \<Rightarrow> ModeSetter list \<Rightarrow>
   hw \<Rightarrow> HD44780 result \<times> hw" where
  "NewGPIO4Bit rs en d4 d5 d6 d7 backlight modes h =
     (case run_all
             (map (\<lambda>pin. case pin of None \<Rightarrow> (\<lambda>w. (Ok (), w)) | Some q \<Rightarrow> pin_SetDirection_Out q)
                  [rs, en, d4, d5, d6, d7, backlight]) h of
        (Ok u, h') \<Rightarrow>
          New (GPIO4Bit \<lparr>RS = rs, EN = en, D4 = d4, D5 = d5, D6 = d6, D7 = d7,
                          Backlight = backlight\<rparr>) modes h'
      | (Err e, h') \<Rightarrow> (Err e, h')
      | (Panic x, h') \<Rightarrow> (Panic x, h'))"

definition NewI2C :: "I2CPinMap \<Rightarrow> ModeSetter list \<Rightarrow> hw \<Rightarrow> HD44780 result \<times> hw" where
  "NewI2C pinMap modes h =
     New (I2CExpander \<lparr>PinMap = pinMap, BacklightState = False\<rparr>) modes h"



text \<open>
  \<open>Home\<close> and \<open>Clear\<close> sleep after the write whether it failed or not
  (\<open>err := ...; time.Sleep(clearDelay); return err\<close>); a panic skips the sleep.
\<close>

definition sleep_then_return :: "nat \<Rightarrow> unit result \<times> HD44780 \<times> hw \<Rightarrow> unit result \<times> HD44780 \<times> hw" where
  "sleep_then_return us res =
     (case res of
        (Panic x, c, h) \<Rightarrow> (Panic x, c, h)
      | (err, c, h) \<Rightarrow> (err, c, snd (time_Sleep us h)))"

definition HD44780_Home :: "unit controller_method" where
  "HD44780_Home s = sleep_then_return clearDelay (HD44780_WriteInstruction lcdReturnHome s)"

definition HD44780_Clear :: "unit controller_method" where
  "HD44780_Clear s = sleep_then_return clearDelay (HD44780_WriteInstruction lcdClearDisplay s)"

definition HD44780_SetCursor :: "byte \<Rightarrow> unit controller_method" where
  "HD44780_SetCursor v = HD44780_WriteInstruction (lcdSetDDRamAddr OR v)"

definition HD44780_Close :: "unit controller_method" where
  "HD44780_Close = (\<lambda>(c, h). case HD44780Bus_Close (bus c) h of (r, h') \<Rightarrow> (r, c, h'))"

definition HD44780_BacklightOn :: "unit controller_method" where
  "HD44780_BacklightOn = (\<lambda>(c, h).
     case HD44780Bus_BacklightOn (bus c) h of (r, b', h') \<Rightarrow> (r, c\<lparr>bus := b'\<rparr>, h'))"


section \<open>The character display of package hd44780\<close>

record position =
  col :: int
  row :: int

text \<open>
  The embedded \<open>*HD44780\<close> is the field \<open>controller\<close>, the \<open>Backlight BacklightBus\<close> field is
  \<open>BacklightBus\<close> (nil is \<open>None\<close>) and \<open>p\<close> is \<open>posn\<close>.  Go's \<open>int\<close> is modelled by \<open>int\<close>: the
  cursor arithmetic is \<open>\<plusminus> 1\<close> on values bounded by the geometry; \<open>byte(col)\<close> truncates.
\<close>

record CharacterDisplay =
  controller :: HD44780
  BacklightBus :: "BacklightBus option"
  Cols :: int
  Rows :: int
  posn :: position

type_synonym 'a display_method = "CharacterDisplay \<times> hw \<Rightarrow> 'a result \<times> CharacterDisplay \<times> hw"

definition on_controller :: "'a controller_method \<Rightarrow> 'a display_method" where
  "on_controller f = (\<lambda>(d, h).
     case f (controller d, h) of (r, c', h') \<Rightarrow> (r, d\<lparr>controller := c'\<rparr>, h'))"

definition currentPosition :: "int \<Rightarrow> int \<Rightarrow> CharacterDisplay \<Rightarrow> CharacterDisplay" where
  "currentPosition cl rw d = d\<lparr>posn := \<lparr>col = cl, row = rw\<rparr>\<rparr>"

definition isLeftToRight :: "CharacterDisplay \<Rightarrow> bool" where
  "isLeftToRight d =
     (drop_bit 1 (eMode (controller d)) AND 0x01 \<noteq> eMode (controller d) AND 0x01)"

text \<open>Indexing a Go slice outside its bounds panics.\<close>

definition index :: "'a list \<Rightarrow> int \<Rightarrow> 'a result" where
  "index xs i =
     (if 0 \<le> i \<and> i < int (length xs) then Ok (xs ! nat i) else Panic (IndexOutOfRange i))"

definition lcdRowOffset :: "CharacterDisplay \<Rightarrow> int \<Rightarrow> byte result" where
  "lcdRowOffset d rw =
     (let rw' = (if rw > 3 then 3 else rw)
      in if Cols d = 16 then index [0x00, 0x40, 0x10, 0x50] rw'
         else index [0x00, 0x40, 0x14, 0x54] rw')"

definition CharacterDisplay_SetCursor :: "int \<Rightarrow> int \<Rightarrow> unit display_method" where
  "CharacterDisplay_SetCursor cl rw = (\<lambda>(d, h).
     let rw' = (if rw \<ge> Rows d then Rows d - 1 else rw);
         d' = currentPosition cl rw' d
     in case lcdRowOffset d' rw' of
          Ok off \<Rightarrow> on_controller (HD44780_SetCursor (word_of_int cl + off)) (d', h)
        | Err e \<Rightarrow> (Err e, d', h)
        | Panic x \<Rightarrow> (Panic x, d', h))"

definition CharacterDisplay_Home :: "unit display_method" where
  "CharacterDisplay_Home = (\<lambda>(d, h). on_controller HD44780_Home (currentPosition 0 0 d, h))"

definition CharacterDisplay_Clear :: "unit display_method" where
  "CharacterDisplay_Clear = (\<lambda>(d, h).
     andThen (on_controller HD44780_Clear)
       (\<lambda>u. andThen (on_controller (HD44780_SetMode []))
          (\<lambda>u (d', h'). if \<not> isLeftToRight d'
                        then CharacterDisplay_SetCursor (Cols d' - 1) 0 (d', h')
                        else (Ok (), d', h')))
       (currentPosition 0 0 d, h))"

definition CharacterDisplay_Newline :: "unit display_method" where
  "CharacterDisplay_Newline = (\<lambda>(d, h).
     let cl = (if isLeftToRight d then 0 else Cols d - 1)
     in CharacterDisplay_SetCursor cl (row (posn d) + 1) (d, h))"

text \<open>One round of the loop of \<open>Message\<close>, for the byte \<open>b\<close>.\<close>

definition Message_byte :: "byte \<Rightarrow> unit display_method" where
  "Message_byte b =
     (if b = of_char (CHR 0x0A) then CharacterDisplay_Newline
      else andThen (on_controller (HD44780_WriteChar b))
             (\<lambda>u (d, h).
                let d' = (if isLeftToRight d
                          then d\<lparr>posn := (posn d)\<lparr>col := col (posn d) + 1\<rparr>\<rparr>
                          else d\<lparr>posn := (posn d)\<lparr>col := col (posn d) - 1\<rparr>\<rparr>)
                in if col (posn d') \<ge> Cols d' \<or> col (posn d') < 0
                   then CharacterDisplay_Newline (d', h)
                   else (Ok (), d', h)))"

definition CharacterDisplay_Message :: "string \<Rightarrow> unit display_method" where
  "CharacterDisplay_Message message = run_all (map Message_byte (map of_char message))"

definition CharacterDisplay_Close :: "unit display_method" where
  "CharacterDisplay_Close =
     andThen (on_controller HD44780_Close)
       (\<lambda>u (d, h). case BacklightBus d of
                      None \<Rightarrow> (Panic NilDereference, d, h)
                    | Some b \<Rightarrow> (case attempt (BacklightBusClose b) h of (r, h') \<Rightarrow> (r, d, h')))"

text \<open>
  \<open>NewCharacterDisplay\<close>, for pin keys that already are digital pins (or nil); the creation
  of a pin from another key is \<open>embd.NewDigitalPin\<close>, outside this repository.  Go returns
  the display together with the error of \<open>BacklightOn\<close>.
\<close>

definition defaultModes :: "ModeSetter list" where
  "defaultModes = [FourBitMode, OneLine, Dots5x8, EntryIncrement, EntryShiftOff,
                   DisplayOn, CursorOff, BlinkOff]"

definition NewCharacterDisplay ::
  "DigitalPin option \<Rightarrow> DigitalPin option \<Rightarrow> DigitalPin option \<Rightarrow> DigitalPin option \<Rightarrow>
   DigitalPin option \<Rightarrow> DigitalPin option \<Rightarrow> DigitalPin option \<Rightarrow> int \<Rightarrow> int \<Rightarrow>
   ModeSetter list \<Rightarrow> hw \<Rightarrow> (CharacterDisplay option \<times> unit result) \<times> hw" where
  "NewCharacterDisplay rs en d4 d5 d6 d7 backlight cols rows modes h =
     (case NewGPIO4Bit rs en d4 d5 d6 d7 backlight (defaultModes @ modes) h of
        (Err e, h') \<Rightarrow> ((None, Err e), h')
      | (Panic x, h') \<Rightarrow> ((None, Panic x), h')
      | (Ok c, h') \<Rightarrow>
          (let display = \<lparr>controller = c, BacklightBus = None, Cols = cols, Rows = rows,
                          posn = \<lparr>col = 0, row = 0\<rparr>\<rparr>
           in case on_controller HD44780_BacklightOn (display, h') of
                (r, d', h'') \<Rightarrow> ((Some d', r), h'')))"

section \<open>The character display of package characterdisplay\<close>

text \<open>
  The \<open>Controller\<close> interface: a table of methods over a controller state \<open>'c\<close>.  No
  implementation of it is part of the repository, so every statement about this layer
  holds for an arbitrary table.
\<close>

record 'c Controller =
  WriteChar :: "byte \<Rightarrow> 'c \<Rightarrow> unit result \<times> 'c"
  SetCursor :: "int \<Rightarrow> int \<Rightarrow> 'c \<Rightarrow> unit result \<times> 'c"
  IsLeftToRight :: "'c \<Rightarrow> bool"
  ColsOf :: "'c \<Rightarrow> int"
  RowsOf :: "'c \<Rightarrow> int"
  Home :: "'c \<Rightarrow> unit result \<times> 'c"
  Clear :: "'c \<Rightarrow> unit result \<times> 'c"
  Close :: "'c \<Rightarrow> unit result \<times> 'c"

record 'c Display =
  ctl :: 'c
  p :: position

definition on_ctl :: "('c \<Rightarrow> 'a result \<times> 'c) \<Rightarrow> 'c Display \<Rightarrow> 'a result \<times> 'c Display" where
  "on_ctl f d = (case f (ctl d) of (r, c') \<Rightarrow> (r, d\<lparr>ctl := c'\<rparr>))"

definition characterdisplay_New :: "'c \<Rightarrow> 'c Display" where
  "characterdisplay_New c = \<lparr>ctl = c, p = \<lparr>col = 0, row = 0\<rparr>\<rparr>"

definition setCurrentPosition :: "int \<Rightarrow> int \<Rightarrow> 'c Display \<Rightarrow> 'c Display" where
  "setCurrentPosition cl rw d = d\<lparr>p := \<lparr>col = cl, row = rw\<rparr>\<rparr>"

definition characterdisplay_SetCursor ::
  "'c Controller \<Rightarrow> int \<Rightarrow> int \<Rightarrow> 'c Display \<Rightarrow> unit result \<times> 'c Display" where
  "characterdisplay_SetCursor K cl rw d =
     (let rw' = (if rw \<ge> RowsOf K (ctl d) then RowsOf K (ctl d) - 1 else rw)
      in on_ctl (SetCursor K cl rw') (setCurrentPosition cl rw' d))"

definition characterdisplay_Home :: "'c Controller \<Rightarrow> 'c Display \<Rightarrow> unit result \<times> 'c Display" where
  "characterdisplay_Home K d = on_ctl (Home K) (setCurrentPosition 0 0 d)"

definition characterdisplay_Clear :: "'c Controller \<Rightarrow> 'c Display \<Rightarrow> unit result \<times> 'c Display" where
  "characterdisplay_Clear K d =
     andThen (on_ctl (Clear K))
       (\<lambda>u d'. if \<not> IsLeftToRight K (ctl d')
                then characterdisplay_SetCursor K (ColsOf K (ctl d') - 1) 0 d'
                else (Ok (), d'))
       (setCurrentPosition 0 0 d)"

definition characterdisplay_Newline :: "'c Controller \<Rightarrow> 'c Display \<Rightarrow> unit result \<times> 'c Display" where
  "characterdisplay_Newline K d =
     (let cl = (if IsLeftToRight K (ctl d) then 0 else ColsOf K (ctl d) - 1)
      in characterdisplay_SetCursor K cl (row (p d) + 1) d)"

definition characterdisplay_Message_byte ::
  "'c Controller \<Rightarrow> byte \<Rightarrow> 'c Display \<Rightarrow> unit result \<times> 'c Display" where
  "characterdisplay_Message_byte K b =
     (if b = of_char (CHR 0x0A) then characterdisplay_Newline K
      else andThen (on_ctl (WriteChar K b))
             (\<lambda>u d.
                let d' = (if IsLeftToRight K (ctl d)
                          then d\<lparr>p := (p d)\<lparr>col := col (p d) + 1\<rparr>\<rparr>
                          else d\<lparr>p := (p d)\<lparr>col := col (p d) - 1\<rparr>\<rparr>)
                in if col (p d') \<ge> ColsOf K (ctl d') \<or> col (p d') < 0
                   then characterdisplay_Newline K d'
                   else (Ok (), d')))"

definition characterdisplay_Message ::
  "'c Controller \<Rightarrow> string \<Rightarrow> 'c Display \<Rightarrow> unit result \<times> 'c Display" where
  "characterdisplay_Message K message =
     run_all (map (characterdisplay_Message_byte K) (map of_char message))"

section \<open>What a bus write puts on the wires\<close>

text \<open>
  The events of one successful \<open>Write\<close> of the parallel bus, written down from its
  description: RS, the high nibble on D4 .. D7 (bit 4 on D4), an enable pulse (each edge
  after a 1 microsecond delay), the low nibble (bit 0 on D4), a second pulse, and the
  37 microsecond instruction delay.
\<close>

definition spec_pulse :: "GPIO4BitBus \<Rightarrow> event list" where
  "spec_pulse b = [Sleep 1, PinWrite (the (EN b)) 0, Sleep 1, PinWrite (the (EN b)) 1,
                   Sleep 1, PinWrite (the (EN b)) 0]"

definition spec_GPIO4Bit_frame :: "GPIO4BitBus \<Rightarrow> bool \<Rightarrow> byte \<Rightarrow> event list" where
  "spec_GPIO4Bit_frame b rs data =
     [PinWrite (the (RS b)) (of_bool rs),
      PinWrite (the (D4 b)) (of_bool (bit data 4)), PinWrite (the (D5 b)) (of_bool (bit data 5)),
      PinWrite (the (D6 b)) (of_bool (bit data 6)), PinWrite (the (D7 b)) (of_bool (bit data 7))]
     @ spec_pulse b @
     [PinWrite (the (D4 b)) (of_bool (bit data 0)), PinWrite (the (D5 b)) (of_bool (bit data 1)),
      PinWrite (the (D6 b)) (of_bool (bit data 2)), PinWrite (the (D7 b)) (of_bool (bit data 3))]
     @ spec_pulse b @ [Sleep 37]"

definition wired :: "GPIO4BitBus \<Rightarrow> bool" where
  "wired b = (RS b \<noteq> None \<and> EN b \<noteq> None \<and> D4 b \<noteq> None \<and> D5 b \<noteq> None
              \<and> D6 b \<noteq> None \<and> D7 b \<noteq> None)"

definition line_writes :: "event list \<Rightarrow> (DigitalPin \<times> int) list" where
  "line_writes evs =
     concat (map (\<lambda>e. case e of PinWrite q v \<Rightarrow> [(q, v)] | _ \<Rightarrow> []) evs)"

text \<open>
  The logical decoder of enable pulses: it follows the level of every line and, when EN
  falls from high to low, captures the register-select level and the nibble standing on
  D4 .. D7 (D4 is bit 0 of the nibble).
\<close>

record latch =
  levels :: "DigitalPin \<Rightarrow> int"
  captured :: "(int \<times> byte) list"

definition level_of :: "latch \<Rightarrow> DigitalPin option \<Rightarrow> int" where
  "level_of l pin = (case pin of None \<Rightarrow> Low | Some q \<Rightarrow> levels l q)"

definition latch_nibble :: "GPIO4BitBus \<Rightarrow> latch \<Rightarrow> byte" where
  "latch_nibble b l =
     word_of_int (level_of l (D4 b)) OR push_bit 1 (word_of_int (level_of l (D5 b)))
       OR push_bit 2 (word_of_int (level_of l (D6 b)))
       OR push_bit 3 (word_of_int (level_of l (D7 b)))"

definition latch_step :: "GPIO4BitBus \<Rightarrow> latch \<Rightarrow> event \<Rightarrow> latch" where
  "latch_step b l e =
     (case e of
        PinWrite q v \<Rightarrow>
          (if EN b = Some q \<and> levels l q = High \<and> v = Low
           then l\<lparr>levels := (levels l)(q := v),
                  captured := captured l @ [(level_of l (RS b), latch_nibble b l)]\<rparr>
           else l\<lparr>levels := (levels l)(q := v)\<rparr>)
      | _ \<Rightarrow> l)"

definition enable_pulse_decoder :: "GPIO4BitBus \<Rightarrow> event list \<Rightarrow> (int \<times> byte) list" where
  "enable_pulse_decoder b evs =
     captured (foldl (latch_step b) \<lparr>levels = (\<lambda>q. Low), captured = []\<rparr> evs)"

definition distinct_lines :: "GPIO4BitBus \<Rightarrow> bool" where
  "distinct_lines b = distinct [RS b, EN b, D4 b, D5 b, D6 b, D7 b]"


section \<open>Stepping through the hardware calls\<close>

lemma uint_bit: "uint (drop_bit k (d::byte) AND 1) = of_bool (bit d k)"
  by (simp add: and_one_eq mod_2_eq_odd bit_iff_odd_drop_bit)

lemma uint_bit0: "uint ((d::byte) AND 1) = of_bool (bit d 0)"
  by (simp add: and_one_eq mod_2_eq_odd bit_0)

lemma nibble_high:
  "of_bool (bit d 4) OR push_bit 1 (of_bool (bit d 5)) OR push_bit 2 (of_bool (bit d 6))
     OR push_bit 3 (of_bool (bit d 7)) = drop_bit 4 (d::byte)"
  by (rule bit_word_eqI)
     (auto simp: bit_simps bit_of_bool_iff less_Suc_eq numeral_eq_Suc dest: bit_imp_le_length)

lemma nibble_low:
  "of_bool (bit d 0) OR push_bit 1 (of_bool (bit d 1)) OR push_bit 2 (of_bool (bit d 2))
     OR push_bit 3 (of_bool (bit d 3)) = take_bit 4 (d::byte)"
  by (rule bit_word_eqI)
     (auto simp: bit_simps bit_of_bool_iff less_Suc_eq numeral_eq_Suc dest: bit_imp_le_length)

lemma nibbles_recombine: "push_bit 4 (drop_bit 4 d) OR take_bit 4 d = (d::byte)"
  by (rule bit_word_eqI) (auto simp: bit_simps)

lemma attempt_quiet:
  "pending h = [] \<Longrightarrow> attempt e h = (Ok (), h\<lparr>events := events h @ [e]\<rparr>)"
  by (simp add: attempt_def)

lemma pin_Write_quiet:
  "pending h = [] \<Longrightarrow> pin_Write (Some q) v h = (Ok (), h\<lparr>events := events h @ [PinWrite q v]\<rparr>)"
  by (simp add: pin_Write_def attempt_quiet)

lemma GPIO4BitBus_pulseEnable_quiet:
  assumes "EN b = Some q" "pending h = []"
  shows "GPIO4BitBus_pulseEnable b h = (Ok (), h\<lparr>events := events h @ spec_pulse b\<rparr>)"
  using assms
  by (simp add: GPIO4BitBus_pulseEnable_def andThen_def pin_Write_quiet time_Sleep_def
      spec_pulse_def High_def Low_def pulseDelay_def)

lemma GPIO4BitBus_Write_quiet:
  assumes w: "wired b" and q: "pending h = []"
  shows "GPIO4BitBus_Write b rs data h
         = (Ok (), h\<lparr>events := events h @ spec_GPIO4Bit_frame b rs data\<rparr>)"
proof -
  from w obtain prs pen p4 p5 p6 p7 where P: "RS b = Some prs" "EN b = Some pen"
    "D4 b = Some p4" "D5 b = Some p5" "D6 b = Some p6" "D7 b = Some p7"
    by (auto simp: wired_def)
  have E: "GPIO4BitBus_Write b rs data h
      = (Ok (), h\<lparr>events := events h @
           [PinWrite prs (if rs then 1 else 0),
            PinWrite p4 (uint (drop_bit 4 data AND 1)), PinWrite p5 (uint (drop_bit 5 data AND 1)),
            PinWrite p6 (uint (drop_bit 6 data AND 1)), PinWrite p7 (uint (drop_bit 7 data AND 1))]
           @ spec_pulse b @
           [PinWrite p4 (uint (drop_bit 0 data AND 1)), PinWrite p5 (uint (drop_bit 1 data AND 1)),
            PinWrite p6 (uint (drop_bit 2 data AND 1)), PinWrite p7 (uint (drop_bit 3 data AND 1))]
           @ spec_pulse b @ [Sleep 37]\<rparr>)"
    using q
    by (simp add: GPIO4BitBus_Write_def andThen_def pin_Write_quiet
        GPIO4BitBus_pulseEnable_quiet [OF P(2)] time_Sleep_def P High_def Low_def writeDelay_def)
  have F: "spec_GPIO4Bit_frame b rs data =
           [PinWrite prs (if rs then 1 else 0),
            PinWrite p4 (of_bool (bit data 4)), PinWrite p5 (of_bool (bit data 5)),
            PinWrite p6 (of_bool (bit data 6)), PinWrite p7 (of_bool (bit data 7))]
           @ spec_pulse b @
           [PinWrite p4 (of_bool (bit data 0)), PinWrite p5 (of_bool (bit data 1)),
            PinWrite p6 (of_bool (bit data 2)), PinWrite p7 (of_bool (bit data 3))]
           @ spec_pulse b @ [Sleep 37]"
    by (simp only: spec_GPIO4Bit_frame_def P option.sel of_bool_def)
  show ?thesis
    unfolding E F uint_bit ..
qed

definition nibble_of :: "int \<Rightarrow> int \<Rightarrow> int \<Rightarrow> int \<Rightarrow> byte" where
  "nibble_of a0 a1 a2 a3 =
     word_of_int a0 OR push_bit 1 (word_of_int a1) OR push_bit 2 (word_of_int a2)
       OR push_bit 3 (word_of_int a3)"

lemma enable_pulse_decoder_two_pulses:
  assumes P: "RS b = Some prs" "EN b = Some pen"
    "D4 b = Some p4" "D5 b = Some p5" "D6 b = Some p6" "D7 b = Some p7"
    and D: "distinct [prs, pen, p4, p5, p6, p7]"
  shows "enable_pulse_decoder b
           ([PinWrite prs r, PinWrite p4 a4, PinWrite p5 a5, PinWrite p6 a6, PinWrite p7 a7]
            @ spec_pulse b @
            [PinWrite p4 a0, PinWrite p5 a1, PinWrite p6 a2, PinWrite p7 a3]
            @ spec_pulse b @ [Sleep 37])
         = [(r, nibble_of a4 a5 a6 a7), (r, nibble_of a0 a1 a2 a3)]"
proof -
  from D have N: "prs \<noteq> pen" "prs \<noteq> p4" "prs \<noteq> p5" "prs \<noteq> p6" "prs \<noteq> p7"
    "pen \<noteq> p4" "pen \<noteq> p5" "pen \<noteq> p6" "pen \<noteq> p7" "p4 \<noteq> p5" "p4 \<noteq> p6" "p4 \<noteq> p7"
    "p5 \<noteq> p6" "p5 \<noteq> p7" "p6 \<noteq> p7"
    by auto
  show ?thesis
    by (simp add: enable_pulse_decoder_def spec_pulse_def latch_step_def latch_nibble_def
        level_of_def P High_def Low_def nibble_of_def N N [symmetric])
qed

lemma enable_pulse_decoder_frame:
  assumes w: "wired b" and d: "distinct_lines b"
  shows "enable_pulse_decoder b (spec_GPIO4Bit_frame b rs data)
         = [(of_bool rs, drop_bit 4 data), (of_bool rs, take_bit 4 data)]"
proof -
  from w obtain prs pen p4 p5 p6 p7 where P: "RS b = Some prs" "EN b = Some pen"
    "D4 b = Some p4" "D5 b = Some p5" "D6 b = Some p6" "D7 b = Some p7"
    by (auto simp: wired_def)
  from d have D: "distinct [prs, pen, p4, p5, p6, p7]"
    by (simp add: distinct_lines_def P)
  have F: "spec_GPIO4Bit_frame b rs data =
           [PinWrite prs (of_bool rs),
            PinWrite p4 (of_bool (bit data 4)), PinWrite p5 (of_bool (bit data 5)),
            PinWrite p6 (of_bool (bit data 6)), PinWrite p7 (of_bool (bit data 7))]
           @ spec_pulse b @
           [PinWrite p4 (of_bool (bit data 0)), PinWrite p5 (of_bool (bit data 1)),
            PinWrite p6 (of_bool (bit data 2)), PinWrite p7 (of_bool (bit data 3))]
           @ spec_pulse b @ [Sleep 37]"
    by (simp only: spec_GPIO4Bit_frame_def P option.sel)
  have hi: "nibble_of (of_bool (bit data 4)) (of_bool (bit data 5)) (of_bool (bit data 6))
              (of_bool (bit data 7)) = drop_bit 4 data"
    unfolding nibble_of_def of_int_of_bool by (rule nibble_high)
  have lo: "nibble_of (of_bool (bit data 0)) (of_bool (bit data 1)) (of_bool (bit data 2))
              (of_bool (bit data 3)) = take_bit 4 data"
    unfolding nibble_of_def of_int_of_bool by (rule nibble_low)
  show ?thesis
    unfolding F enable_pulse_decoder_two_pulses [OF P D] hi lo ..
qed

section \<open>C1: the write sequence of the parallel 4-bit bus\<close>

text \<open>
  The seven mock pins of the emulator of the test file, and a world without faults.
\<close>

definition emulator_bus :: GPIO4BitBus where
  "emulator_bus = \<lparr>RS = Some (Pin 0), EN = Some (Pin 1), D4 = Some (Pin 2), D5 = Some (Pin 3),
                    D6 = Some (Pin 4), D7 = Some (Pin 5), Backlight = Some (Pin 6)\<rparr>"

definition quiet_world :: hw where
  "quiet_world = \<lparr>events = [], pending = []\<rparr>"

text \<open>
  Claim C1.  On a bus whose six signal lines are wired to six different pins, and with no
  transport fault, \<open>GPIO4BitBus.Write\<close> returns nil for every byte \<open>data\<close> and every flag
  \<open>rs\<close>, and what it adds to the world is exactly: RS driven to \<open>rs\<close>; D4 .. D7 driven with
  bits 4 .. 7 of \<open>data\<close>; EN low, high, low; D4 .. D7 driven with bits 0 .. 3; EN low, high,
  low.  A decoder that latches RS and D4 .. D7 when the enable pulse falls captures exactly
  two halves, the high nibble first, both with register select \<open>rs\<close>, and the two halves
  recombine to \<open>data\<close>.
\<close>

theorem GPIO4BitBus_Write_sequence:
  assumes "wired b" and "distinct_lines b" and "pending h = []"
  shows "GPIO4BitBus_Write b rs data h
           = (Ok (), h\<lparr>events := events h @ spec_GPIO4Bit_frame b rs data\<rparr>)
       \<and> line_writes (spec_GPIO4Bit_frame b rs data)
           = [(the (RS b), of_bool rs),
              (the (D4 b), of_bool (bit data 4)), (the (D5 b), of_bool (bit data 5)),
              (the (D6 b), of_bool (bit data 6)), (the (D7 b), of_bool (bit data 7)),
              (the (EN b), 0), (the (EN b), 1), (the (EN b), 0),
              (the (D4 b), of_bool (bit data 0)), (the (D5 b), of_bool (bit data 1)),
              (the (D6 b), of_bool (bit data 2)), (the (D7 b), of_bool (bit data 3)),
              (the (EN b), 0), (the (EN b), 1), (the (EN b), 0)]
       \<and> enable_pulse_decoder b (spec_GPIO4Bit_frame b rs data)
           = [(of_bool rs, drop_bit 4 data), (of_bool rs, take_bit 4 data)]
       \<and> push_bit 4 (drop_bit 4 data) OR take_bit 4 data = data"
proof -
  have "line_writes (spec_GPIO4Bit_frame b rs data)
           = [(the (RS b), of_bool rs),
              (the (D4 b), of_bool (bit data 4)), (the (D5 b), of_bool (bit data 5)),
              (the (D6 b), of_bool (bit data 6)), (the (D7 b), of_bool (bit data 7)),
              (the (EN b), 0), (the (EN b), 1), (the (EN b), 0),
              (the (D4 b), of_bool (bit data 0)), (the (D5 b), of_bool (bit data 1)),
              (the (D6 b), of_bool (bit data 2)), (the (D7 b), of_bool (bit data 3)),
              (the (EN b), 0), (the (EN b), 1), (the (EN b), 0)]"
    by (simp add: line_writes_def spec_GPIO4Bit_frame_def spec_pulse_def)
  with assms show ?thesis
    by (simp only: GPIO4BitBus_Write_quiet enable_pulse_decoder_frame nibbles_recombine simp_thms)
qed

theorem GPIO4BitBus_Write_sequence_witness:
  "wired emulator_bus \<and> distinct_lines emulator_bus \<and> pending quiet_world = []
   \<and> fst (GPIO4BitBus_Write emulator_bus True 0xAB quiet_world) = Ok ()
   \<and> line_writes (events (snd (GPIO4BitBus_Write emulator_bus True 0xAB quiet_world)))
       = [(Pin 0, 1), (Pin 2, 0), (Pin 3, 1), (Pin 4, 0), (Pin 5, 1),
          (Pin 1, 0), (Pin 1, 1), (Pin 1, 0),
          (Pin 2, 1), (Pin 3, 1), (Pin 4, 0), (Pin 5, 1),
          (Pin 1, 0), (Pin 1, 1), (Pin 1, 0)]
   \<and> enable_pulse_decoder emulator_bus
        (events (snd (GPIO4BitBus_Write emulator_bus True 0xAB quiet_world)))
       = [(1, 0xA), (1, 0xB)]
   \<and> push_bit 4 (0xA :: byte) OR 0xB = 0xAB"
proof -
  have w: "wired emulator_bus" and d: "distinct_lines emulator_bus"
    and q: "pending quiet_world = []"
    by (simp_all add: wired_def distinct_lines_def emulator_bus_def quiet_world_def)
  have bits: "bit (0xAB :: byte) 0" "bit (0xAB :: byte) 1" "\<not> bit (0xAB :: byte) 2"
    "bit (0xAB :: byte) 3" "\<not> bit (0xAB :: byte) 4" "bit (0xAB :: byte) 5"
    "\<not> bit (0xAB :: byte) 6" "bit (0xAB :: byte) 7"
    by (simp_all add: bit_iff_odd_drop_bit drop_bit_eq_div)
  have nib: "drop_bit 4 (0xAB :: byte) = 0xA" "take_bit 4 (0xAB :: byte) = 0xB"
    by (simp_all add: drop_bit_eq_div take_bit_eq_mod)
  from GPIO4BitBus_Write_sequence [OF w d q, of True "0xAB"] w d q
  show ?thesis
    by (simp add: bits nib quiet_world_def emulator_bus_def)
qed

section \<open>C6: the write sequence of the I2C expander bus\<close>

text \<open>
  The description of the I2C write, in its own words: a byte for one nibble is the OR of
  each data bit shifted to its mapped position, of the RS bit when register select is set
  and of the backlight bit when the stored backlight state is on; each of the two bytes is
  sent as byte, byte OR enable, byte; every send is a 1 microsecond delay followed by a
  single-byte write to device address 0, and the first failing write ends the sequence.
\<close>

definition spec_expander_byte ::
  "I2CPinMap \<Rightarrow> bool \<Rightarrow> bool \<Rightarrow> bool \<Rightarrow> bool \<Rightarrow> bool \<Rightarrow> bool \<Rightarrow> byte" where
  "spec_expander_byte pm backlight rs b0 b1 b2 b3 =
     (if b0 then shl 1 (D4_bit pm) else 0) OR (if b1 then shl 1 (D5_bit pm) else 0)
       OR (if b2 then shl 1 (D6_bit pm) else 0) OR (if b3 then shl 1 (D7_bit pm) else 0)
       OR (if rs then shl 1 (RS_bit pm) else 0)
       OR (if backlight then shl 1 (Backlight_bit pm) else 0)"

definition spec_I2C_sequence :: "I2CBus \<Rightarrow> bool \<Rightarrow> byte \<Rightarrow> byte list" where
  "spec_I2C_sequence b rs data =
     (let high = spec_expander_byte (PinMap b) (BacklightState b) rs
                   (bit data 4) (bit data 5) (bit data 6) (bit data 7);
          low = spec_expander_byte (PinMap b) (BacklightState b) rs
                   (bit data 0) (bit data 1) (bit data 2) (bit data 3);
          en = shl 1 (EN_bit (PinMap b))
      in [high, high OR en, high, low, low OR en, low])"

fun spec_i2c_send :: "byte list \<Rightarrow> hw \<Rightarrow> unit result \<times> hw" where
  "spec_i2c_send [] h = (Ok (), h)"
| "spec_i2c_send (x # xs) h =
     (case attempt (I2CWriteByte 0 x) (h\<lparr>events := events h @ [Sleep 1]\<rparr>) of
        (Ok u, h') \<Rightarrow> spec_i2c_send xs h'
      | (Err e, h') \<Rightarrow> (Err e, h')
      | (Panic x, h') \<Rightarrow> (Panic x, h'))"

definition i2c_trace :: "byte list \<Rightarrow> event list" where
  "i2c_trace xs = concat (map (\<lambda>x. [Sleep 1, I2CWriteByte 0 x]) xs)"

lemma run_all_sends:
  "run_all (map (\<lambda>x. andThen (time_Sleep pulseDelay) (\<lambda>u. I2C_WriteByte i2cAddr x)) xs) h
   = spec_i2c_send xs h"
proof (induction xs arbitrary: h)
  case Nil
  show ?case by simp
next
  case (Cons x xs)
  show ?case
    unfolding list.map run_all.simps spec_i2c_send.simps Cons.IH
    by (simp add: andThen_def time_Sleep_def I2C_WriteByte_def i2cAddr_def pulseDelay_def
        split: prod.splits result.splits)
qed

lemma run_all_append:
  "run_all (fs @ gs) s =
     (case run_all fs s of (Ok u, s') \<Rightarrow> run_all gs s'
      | (Err e, s') \<Rightarrow> (Err e, s') | (Panic x, s') \<Rightarrow> (Panic x, s'))"
  by (induction fs arbitrary: s) (auto split: prod.splits result.splits)

lemma spec_i2c_send_append:
  "spec_i2c_send (xs @ ys) h =
     (case spec_i2c_send xs h of (Ok u, h') \<Rightarrow> spec_i2c_send ys h'
      | (Err e, h') \<Rightarrow> (Err e, h') | (Panic x, h') \<Rightarrow> (Panic x, h'))"
  by (induction xs arbitrary: h) (auto split: prod.splits result.splits)

lemma spec_i2c_send_quiet:
  "pending h = [] \<Longrightarrow> spec_i2c_send xs h = (Ok (), h\<lparr>events := events h @ i2c_trace xs\<rparr>)"
  by (induction xs arbitrary: h) (simp_all add: i2c_trace_def attempt_def)

lemma spec_i2c_send_fails:
  "k < length xs \<Longrightarrow> pending h = replicate k None @ Some e # rest \<Longrightarrow>
   spec_i2c_send xs h
   = (Err e, h\<lparr>events := events h @ i2c_trace (take k xs) @ [Sleep 1], pending := rest\<rparr>)"
proof (induction xs arbitrary: k h)
  case Nil
  then show ?case by simp
next
  case (Cons x xs)
  show ?case
  proof (cases k)
    case 0
    with Cons.prems show ?thesis by (simp add: attempt_def i2c_trace_def)
  next
    case (Suc j)
    with Cons.prems have j: "j < length xs" by simp
    let ?h = "h\<lparr>events := events h @ [Sleep 1, I2CWriteByte 0 x], pending := replicate j None @ Some e # rest\<rparr>"
    have "spec_i2c_send (x # xs) h = spec_i2c_send xs ?h"
      using Cons.prems Suc by (simp add: attempt_def)
    also have "\<dots> = (Err e, ?h\<lparr>events := events ?h @ i2c_trace (take j xs) @ [Sleep 1], pending := rest\<rparr>)"
      by (rule Cons.IH [OF j]) simp
    finally show ?thesis using Suc by (simp add: i2c_trace_def)
  qed
qed

lemma bit_as_word: "drop_bit k (d::byte) AND 1 = of_bool (bit d k)"
  by (simp add: and_one_eq mod_2_eq_odd bit_iff_odd_drop_bit)

lemma shl_of_bool: "shl (of_bool c) s = (if c then shl 1 s else 0)"
  by (simp add: shl_def)

lemma expander_byte_code:
  "(if bl then (if rs then ins OR r else ins) OR l else (if rs then ins OR r else ins))
   = ins OR (if rs then r else 0) OR (if bl then l else (0::byte))"
  by (simp add: or.assoc)

lemma I2CBus_Write_as_sends:
  "I2CBus_Write b rs data h
   = andThen (spec_i2c_send (spec_I2C_sequence b rs data)) (\<lambda>u. time_Sleep writeDelay) h"
proof -
  have low0: "data AND 1 = of_bool (bit data 0)"
    using bit_as_word [of 0 data] by simp
  have pulse: "\<And>x. I2CBus_pulseEnable b x = spec_i2c_send [x, x OR shl 1 (EN_bit (PinMap b)), x]"
    by (rule ext) (simp only: I2CBus_pulseEnable_def run_all_sends numeral_One)
  have two: "\<And>x y. run_all [spec_i2c_send x, spec_i2c_send y] = spec_i2c_send (x @ y)"
    by (rule ext) (simp add: spec_i2c_send_append split: prod.splits result.splits)
  have high: "(0 OR shl (drop_bit 4 data AND 1) (D4_bit (PinMap b))
                 OR shl (drop_bit 5 data AND 1) (D5_bit (PinMap b))
                 OR shl (drop_bit 6 data AND 1) (D6_bit (PinMap b))
                 OR shl (drop_bit 7 data AND 1) (D7_bit (PinMap b)))
               OR (if rs then shl 1 (RS_bit (PinMap b)) else 0)
               OR (if BacklightState b then shl 1 (Backlight_bit (PinMap b)) else 0)
        = spec_expander_byte (PinMap b) (BacklightState b) rs
            (bit data 4) (bit data 5) (bit data 6) (bit data 7)"
    unfolding spec_expander_byte_def bit_as_word shl_of_bool by (simp only: or.assoc or.left_neutral)
  have low: "(0 OR shl (data AND 1) (D4_bit (PinMap b))
                 OR shl (drop_bit 1 data AND 1) (D5_bit (PinMap b))
                 OR shl (drop_bit 2 data AND 1) (D6_bit (PinMap b))
                 OR shl (drop_bit 3 data AND 1) (D7_bit (PinMap b)))
               OR (if rs then shl 1 (RS_bit (PinMap b)) else 0)
               OR (if BacklightState b then shl 1 (Backlight_bit (PinMap b)) else 0)
        = spec_expander_byte (PinMap b) (BacklightState b) rs
            (bit data 0) (bit data 1) (bit data 2) (bit data 3)"
    unfolding spec_expander_byte_def bit_as_word low0 shl_of_bool by (simp only: or.assoc or.left_neutral)
  show ?thesis
    unfolding I2CBus_Write_def Let_def list.map numeral_One expander_byte_code high low pulse two
      spec_I2C_sequence_def
    by (simp only: append.simps)
qed

definition pcf8574_bus :: I2CBus where
  "pcf8574_bus = \<lparr>PinMap = PCF8574PinMap, BacklightState = True\<rparr>"

text \<open>
  Claim C6.  For every byte, register-select flag, pin map and world, \<open>I2CBus.Write\<close> is
  the sending of the six bytes high, high OR enable, high, low, low OR enable, low of the
  description, each a single-byte write to address 0 after a 1 microsecond delay, followed
  by the 37 microsecond delay.  Without faults all six are written; when the write number
  \<open>k\<close> (counted from 0) is the first to fail, exactly the \<open>k\<close> writes before it have taken
  place, nothing follows, and its error is returned.
\<close>

theorem I2CBus_Write_sequence:
  "I2CBus_Write b rs data h
     = andThen (spec_i2c_send (spec_I2C_sequence b rs data)) (\<lambda>u. time_Sleep writeDelay) h
   \<and> (pending h = [] \<longrightarrow>
        I2CBus_Write b rs data h
          = (Ok (), h\<lparr>events := events h @ i2c_trace (spec_I2C_sequence b rs data) @ [Sleep 37]\<rparr>))
   \<and> (k < 6 \<and> pending h = replicate k None @ Some e # rest \<longrightarrow>
        I2CBus_Write b rs data h
          = (Err e, h\<lparr>events := events h @ i2c_trace (take k (spec_I2C_sequence b rs data)) @ [Sleep 1],
                      pending := rest\<rparr>))"
proof (intro conjI impI)
  show "I2CBus_Write b rs data h
     = andThen (spec_i2c_send (spec_I2C_sequence b rs data)) (\<lambda>u. time_Sleep writeDelay) h"
    by (rule I2CBus_Write_as_sends)
next
  assume "pending h = []"
  then show "I2CBus_Write b rs data h
          = (Ok (), h\<lparr>events := events h @ i2c_trace (spec_I2C_sequence b rs data) @ [Sleep 37]\<rparr>)"
    by (simp add: I2CBus_Write_as_sends andThen_def spec_i2c_send_quiet time_Sleep_def writeDelay_def)
next
  assume a: "k < 6 \<and> pending h = replicate k None @ Some e # rest"
  have len: "length (spec_I2C_sequence b rs data) = 6"
    by (simp add: spec_I2C_sequence_def Let_def)
  from a have "spec_i2c_send (spec_I2C_sequence b rs data) h
      = (Err e, h\<lparr>events := events h @ i2c_trace (take k (spec_I2C_sequence b rs data)) @ [Sleep 1],
                  pending := rest\<rparr>)"
    by (intro spec_i2c_send_fails) (simp_all add: len)
  then show "I2CBus_Write b rs data h
      = (Err e, h\<lparr>events := events h @ i2c_trace (take k (spec_I2C_sequence b rs data)) @ [Sleep 1],
                  pending := rest\<rparr>)"
    by (simp add: I2CBus_Write_as_sends andThen_def)
qed

theorem I2CBus_Write_sequence_witness:
  "pending quiet_world = []
   \<and> I2CBus_Write pcf8574_bus True 0xAB quiet_world
       = (Ok (), \<lparr>events = [Sleep 1, I2CWriteByte 0 0xA9, Sleep 1, I2CWriteByte 0 0xAD,
                             Sleep 1, I2CWriteByte 0 0xA9, Sleep 1, I2CWriteByte 0 0xB9,
                             Sleep 1, I2CWriteByte 0 0xBD, Sleep 1, I2CWriteByte 0 0xB9, Sleep 37],
                   pending = []\<rparr>)
   \<and> (2::nat) < 6
   \<and> pending \<lparr>events = [], pending = [None, None, Some (TransportError 7), None]\<rparr>
       = replicate 2 None @ Some (TransportError 7) # [None]
   \<and> I2CBus_Write pcf8574_bus True 0xAB
         \<lparr>events = [], pending = [None, None, Some (TransportError 7), None]\<rparr>
       = (Err (TransportError 7),
          \<lparr>events = [Sleep 1, I2CWriteByte 0 0xA9, Sleep 1, I2CWriteByte 0 0xAD, Sleep 1],
            pending = [None]\<rparr>)"
proof -
  have bits: "bit (0xAB :: byte) 0" "bit (0xAB :: byte) 1" "\<not> bit (0xAB :: byte) 2"
    "bit (0xAB :: byte) 3" "\<not> bit (0xAB :: byte) 4" "bit (0xAB :: byte) 5"
    "\<not> bit (0xAB :: byte) 6" "bit (0xAB :: byte) 7"
    by (simp_all add: bit_iff_odd_drop_bit drop_bit_eq_div)
  have seq: "spec_I2C_sequence pcf8574_bus True 0xAB = [0xA9, 0xAD, 0xA9, 0xB9, 0xBD, 0xB9]"
    by (simp add: spec_I2C_sequence_def spec_expander_byte_def pcf8574_bus_def PCF8574PinMap_def
        shl_def bits)
  have r: "replicate 2 None @ Some (TransportError 7) # [None]
           = [None, None, Some (TransportError 7), None]"
    by (simp add: numeral_2_eq_2)
  from I2CBus_Write_sequence [of pcf8574_bus True "0xAB" quiet_world, THEN conjunct2]
       I2CBus_Write_sequence [of pcf8574_bus True "0xAB"
          "\<lparr>events = [], pending = [None, None, Some (TransportError 7), None]\<rparr>"
          2 "TransportError 7" "[None]", THEN conjunct2]
  show ?thesis
    by (simp add: seq r quiet_world_def i2c_trace_def)
qed

section \<open>Bus writes as lists of hardware steps\<close>

text \<open>
  A bus write is a fixed list of hardware steps, tried in order until one fails.
  \<open>perform\<close> runs such a list; \<open>trace\<close> is what a complete run adds to the world.
\<close>

datatype step = Do event | Wait nat

fun perform :: "step list \<Rightarrow> hw \<Rightarrow> unit result \<times> hw" where
  "perform [] h = (Ok (), h)"
| "perform (Wait n # ss) h = perform ss (h\<lparr>events := events h @ [Sleep n]\<rparr>)"
| "perform (Do e # ss) h =
     (case attempt e h of
        (Ok u, h') \<Rightarrow> perform ss h'
      | (Err x, h') \<Rightarrow> (Err x, h')
      | (Panic x, h') \<Rightarrow> (Panic x, h'))"

fun step_event :: "step \<Rightarrow> event" where
  "step_event (Do e) = e"
| "step_event (Wait n) = Sleep n"

definition trace :: "step list \<Rightarrow> event list" where
  "trace ss = map step_event ss"

definition GPIO4Bit_steps :: "GPIO4BitBus \<Rightarrow> bool \<Rightarrow> byte \<Rightarrow> step list" where
  "GPIO4Bit_steps b rs data =
     (let pulse = [Wait 1, Do (PinWrite (the (EN b)) 0), Wait 1, Do (PinWrite (the (EN b)) 1),
                   Wait 1, Do (PinWrite (the (EN b)) 0)]
      in [Do (PinWrite (the (RS b)) (of_bool rs)),
          Do (PinWrite (the (D4 b)) (of_bool (bit data 4))),
          Do (PinWrite (the (D5 b)) (of_bool (bit data 5))),
          Do (PinWrite (the (D6 b)) (of_bool (bit data 6))),
          Do (PinWrite (the (D7 b)) (of_bool (bit data 7)))]
         @ pulse @
         [Do (PinWrite (the (D4 b)) (of_bool (bit data 0))),
          Do (PinWrite (the (D5 b)) (of_bool (bit data 1))),
          Do (PinWrite (the (D6 b)) (of_bool (bit data 2))),
          Do (PinWrite (the (D7 b)) (of_bool (bit data 3)))]
         @ pulse @ [Wait 37])"

definition I2C_steps :: "I2CBus \<Rightarrow> bool \<Rightarrow> byte \<Rightarrow> step list" where
  "I2C_steps b rs data =
     concat (map (\<lambda>x. [Wait 1, Do (I2CWriteByte 0 x)]) (spec_I2C_sequence b rs data)) @ [Wait 37]"

fun bus_steps :: "HD44780Bus \<Rightarrow> bool \<Rightarrow> byte \<Rightarrow> step list" where
  "bus_steps (GPIO4Bit b) rs data = GPIO4Bit_steps b rs data"
| "bus_steps (I2CExpander b) rs data = I2C_steps b rs data"

fun bus_ready :: "HD44780Bus \<Rightarrow> bool" where
  "bus_ready (GPIO4Bit b) = wired b"
| "bus_ready (I2CExpander b) = True"

text \<open>The events of a list of bus writes \<open>(rs, data)\<close>, one after the other.\<close>

definition wire :: "HD44780Bus \<Rightarrow> (bool \<times> byte) list \<Rightarrow> event list" where
  "wire b ws = concat (map (\<lambda>(rs, data). trace (bus_steps b rs data)) ws)"

lemma perform_append:
  "perform (xs @ ys) h =
     (case perform xs h of (Ok u, h') \<Rightarrow> perform ys h'
      | (Err e, h') \<Rightarrow> (Err e, h') | (Panic x, h') \<Rightarrow> (Panic x, h'))"
proof (induction xs arbitrary: h)
  case Nil
  show ?case by simp
next
  case (Cons s xs)
  show ?case
    by (cases s) (auto simp: Cons.IH split: prod.splits result.splits)
qed

lemma perform_quiet:
  "pending h = [] \<Longrightarrow> perform ss h = (Ok (), h\<lparr>events := events h @ trace ss\<rparr>)"
proof (induction ss arbitrary: h)
  case Nil
  show ?case by (simp add: trace_def)
next
  case (Cons s ss)
  show ?case
  proof (cases s)
    case (Do e)
    with Cons.prems show ?thesis
      by (simp add: attempt_def Cons.IH trace_def)
  next
    case (Wait n)
    with Cons.prems show ?thesis
      by (simp add: Cons.IH trace_def)
  qed
qed

lemma perform_Ok:
  "perform ss h = (Ok u, h') \<Longrightarrow> events h' = events h @ trace ss"
proof (induction ss arbitrary: h)
  case Nil
  then show ?case by (auto simp: trace_def)
next
  case (Cons s ss)
  show ?case
  proof (cases s)
    case (Do e)
    with Cons.prems obtain h1 where a: "attempt e h = (Ok (), h1)" and r: "perform ss h1 = (Ok u, h')"
      by (auto split: prod.splits result.splits)
    from a have "events h1 = events h @ [e]"
      by (auto simp: attempt_def split: list.splits option.splits)
    with Cons.IH [OF r] Do show ?thesis by (simp add: trace_def)
  next
    case (Wait n)
    with Cons.prems have "perform ss (h\<lparr>events := events h @ [Sleep n]\<rparr>) = (Ok u, h')" by simp
    from Cons.IH [OF this] Wait show ?thesis by (simp add: trace_def)
  qed
qed

lemma perform_no_panic: "fst (perform ss h) \<noteq> Panic x"
proof (induction ss arbitrary: h)
  case Nil
  show ?case by simp
next
  case (Cons s ss)
  show ?case
  proof (cases s)
    case (Do e)
    have "fst (attempt e h) \<noteq> Panic x"
      by (simp add: attempt_def split: list.splits option.splits)
    with Cons.IH Do show ?thesis
      by (auto split: prod.splits result.splits)
  next
    case (Wait n)
    with Cons.IH show ?thesis by simp
  qed
qed

lemma run_all_performs: "run_all (map perform xss) h = perform (concat xss) h"
  by (induction xss arbitrary: h) (simp_all add: perform_append split: prod.splits result.splits)

lemma pin_Write_perform: "pin_Write (Some q) v = perform [Do (PinWrite q v)]"
  by (rule ext) (simp add: pin_Write_def split: prod.splits result.splits)

lemma sleep_pin_Write_perform:
  "andThen (time_Sleep n) (\<lambda>u. pin_Write (Some q) v) = perform [Wait n, Do (PinWrite q v)]"
  by (rule ext) (simp add: andThen_def time_Sleep_def pin_Write_def split: prod.splits result.splits)

lemma perform_then_sleep:
  "andThen (perform ss) (\<lambda>u. time_Sleep n) = perform (ss @ [Wait n])"
  by (rule ext) (simp add: andThen_def time_Sleep_def perform_append split: prod.splits result.splits)

lemma GPIO4BitBus_pulseEnable_perform:
  assumes "EN b = Some q"
  shows "GPIO4BitBus_pulseEnable b
         = perform [Wait 1, Do (PinWrite q 0), Wait 1, Do (PinWrite q 1), Wait 1, Do (PinWrite q 0)]"
proof (rule ext)
  fix h
  show "GPIO4BitBus_pulseEnable b h
         = perform [Wait 1, Do (PinWrite q 0), Wait 1, Do (PinWrite q 1), Wait 1, Do (PinWrite q 0)] h"
    using run_all_performs [of "[[Wait 1, Do (PinWrite q 0)], [Wait 1, Do (PinWrite q 1)],
                                  [Wait 1, Do (PinWrite q 0)]]" h]
    by (simp add: GPIO4BitBus_pulseEnable_def assms sleep_pin_Write_perform High_def Low_def
        pulseDelay_def del: perform.simps)
qed

lemma GPIO4BitBus_Write_perform:
  assumes w: "wired b"
  shows "GPIO4BitBus_Write b rs data h = perform (GPIO4Bit_steps b rs data) h"
proof -
  from w obtain prs pen p4 p5 p6 p7 where P: "RS b = Some prs" "EN b = Some pen"
    "D4 b = Some p4" "D5 b = Some p5" "D6 b = Some p6" "D7 b = Some p7"
    by (auto simp: wired_def)
  let ?pulse = "[Wait 1, Do (PinWrite pen 0), Wait 1, Do (PinWrite pen 1), Wait 1, Do (PinWrite pen 0)]"
  let ?v = "\<lambda>k. uint (drop_bit k data AND 1)"
  let ?xss = "[[Do (PinWrite prs (if rs then 1 else 0))],
      [Do (PinWrite p4 (?v 4))], [Do (PinWrite p5 (?v 5))],
      [Do (PinWrite p6 (?v 6))], [Do (PinWrite p7 (?v 7))], ?pulse,
      [Do (PinWrite p4 (?v 0))], [Do (PinWrite p5 (?v 1))],
      [Do (PinWrite p6 (?v 2))], [Do (PinWrite p7 (?v 3))], ?pulse]"
  have E: "GPIO4BitBus_Write b rs data = andThen (run_all (map perform ?xss)) (\<lambda>u. time_Sleep 37)"
    by (simp add: GPIO4BitBus_Write_def P pin_Write_perform GPIO4BitBus_pulseEnable_perform [OF P(2)]
        High_def Low_def writeDelay_def del: perform.simps)
  have R: "run_all (map perform ?xss) = perform (concat ?xss)"
    by (rule ext) (rule run_all_performs)
  have S: "concat ?xss @ [Wait 37] = GPIO4Bit_steps b rs data"
    unfolding uint_bit GPIO4Bit_steps_def Let_def P option.sel of_bool_def by simp
  show ?thesis
    unfolding E R perform_then_sleep S ..
qed

lemma trace_GPIO4Bit_steps: "trace (GPIO4Bit_steps b rs data) = spec_GPIO4Bit_frame b rs data"
  by (simp add: trace_def GPIO4Bit_steps_def spec_GPIO4Bit_frame_def spec_pulse_def)

lemma spec_i2c_send_perform:
  "spec_i2c_send xs h = perform (concat (map (\<lambda>x. [Wait 1, Do (I2CWriteByte 0 x)]) xs)) h"
  by (induction xs arbitrary: h) (simp_all split: prod.splits result.splits)

lemma I2CBus_Write_perform: "I2CBus_Write b rs data h = perform (I2C_steps b rs data) h"
  using perform_then_sleep [of "concat (map (\<lambda>x. [Wait 1, Do (I2CWriteByte 0 x)])
                                          (spec_I2C_sequence b rs data))" writeDelay]
  by (simp add: I2CBus_Write_as_sends I2C_steps_def andThen_def spec_i2c_send_perform writeDelay_def
      fun_eq_iff del: perform.simps)

lemma HD44780Bus_Write_perform:
  "bus_ready b \<Longrightarrow> HD44780Bus_Write b rs data h = perform (bus_steps b rs data) h"
  by (cases b) (simp_all add: GPIO4BitBus_Write_perform I2CBus_Write_perform)

section \<open>The controller on a ready bus\<close>

definition steps_of :: "HD44780Bus \<Rightarrow> (bool \<times> byte) list \<Rightarrow> step list" where
  "steps_of b ws = concat (map (\<lambda>(rs, data). bus_steps b rs data) ws)"

lemma wire_steps_of: "wire b ws = trace (steps_of b ws)"
  by (induction ws) (auto simp: wire_def steps_of_def trace_def)

lemma HD44780_Write_perform:
  "bus_ready (bus c) \<Longrightarrow>
   HD44780_Write rs v (c, h) = (case perform (bus_steps (bus c) rs v) h of (r, h') \<Rightarrow> (r, c, h'))"
  by (simp add: HD44780_Write_def HD44780Bus_Write_perform)


lemma HD44780_Write_quiet:
  "bus_ready (bus c) \<Longrightarrow> pending h = [] \<Longrightarrow>
   HD44780_Write rs v (c, h) = (Ok (), c, h\<lparr>events := events h @ wire (bus c) [(rs, v)]\<rparr>)"
  by (simp add: HD44780_Write_perform perform_quiet wire_def)

section \<open>C5: SetMode\<close>

text \<open>
  The description of \<open>applyModes\<close>, in its own words: apply each setter to the mode bytes
  in memory; then send the entry mode, the display mode and the function mode, in this
  order, as three instructions, each OR-ed with its instruction flag (0x04, 0x08, 0x20);
  stop at the first write that fails and return its error; the mutated bytes stay.
\<close>

definition spec_applyModes :: "ModeSetter list \<Rightarrow> unit controller_method" where
  "spec_applyModes setters = (\<lambda>(c, h).
     let c' = fold (\<lambda>m x. m x) setters c in
     case HD44780Bus_Write (bus c') False (0x04 OR eMode c') h of
       (Ok u, h1) \<Rightarrow>
         (case HD44780Bus_Write (bus c') False (0x08 OR dMode c') h1 of
            (Ok u, h2) \<Rightarrow>
              (case HD44780Bus_Write (bus c') False (0x20 OR fMode c') h2 of
                 (r, h3) \<Rightarrow> (r, c', h3))
          | (Err e, h2) \<Rightarrow> (Err e, c', h2)
          | (Panic x, h2) \<Rightarrow> (Panic x, c', h2))
     | (Err e, h1) \<Rightarrow> (Err e, c', h1)
     | (Panic x, h1) \<Rightarrow> (Panic x, c', h1))"

definition mode_instructions :: "HD44780 \<Rightarrow> (bool \<times> byte) list" where
  "mode_instructions c = [(False, 0x04 OR eMode c), (False, 0x08 OR dMode c), (False, 0x20 OR fMode c)]"

lemma HD44780_SetMode_spec: "HD44780_SetMode modes (c, h) = spec_applyModes modes (c, h)"
  by (simp add: HD44780_SetMode_def spec_applyModes_def HD44780_setEntryMode_def
      HD44780_setDisplayMode_def HD44780_setFunctionMode_def HD44780_WriteInstruction_def
      HD44780_Write_def lcdSetEntryMode_def lcdSetDisplayMode_def lcdSetFunctionMode_def
      foldl_conv_fold Let_def split: prod.splits result.splits)

lemma HD44780_SetMode_controller:
  "fst (snd (HD44780_SetMode modes (c, h))) = foldl (\<lambda>x m. m x) c modes"
  by (simp add: HD44780_SetMode_spec spec_applyModes_def foldl_conv_fold Let_def
      split: prod.splits result.splits)

lemma HD44780_SetMode_perform:
  assumes "bus_ready (bus (foldl (\<lambda>x m. m x) c modes))"
  shows "HD44780_SetMode modes (c, h) =
         (case perform (steps_of (bus (foldl (\<lambda>x m. m x) c modes))
                          (mode_instructions (foldl (\<lambda>x m. m x) c modes))) h of
            (r, h') \<Rightarrow> (r, foldl (\<lambda>x m. m x) c modes, h'))"
  using assms
  by (simp add: HD44780_SetMode_spec spec_applyModes_def foldl_conv_fold Let_def
      HD44780Bus_Write_perform steps_of_def mode_instructions_def perform_append
      split: prod.splits result.splits)

lemma HD44780_SetMode_quiet:
  assumes "bus_ready (bus (foldl (\<lambda>x m. m x) c modes))" and "pending h = []"
  shows "HD44780_SetMode modes (c, h) =
         (Ok (), foldl (\<lambda>x m. m x) c modes,
          h\<lparr>events := events h @ wire (bus (foldl (\<lambda>x m. m x) c modes))
                                      (mode_instructions (foldl (\<lambda>x m. m x) c modes))\<rparr>)"
  using assms by (simp add: HD44780_SetMode_perform perform_quiet wire_steps_of)

text \<open>
  Claim C5.  \<open>SetMode\<close> is \<open>applyModes\<close> as described.  Whatever the outcome, the
  controller it leaves has every setter applied.  On a ready bus without faults the world
  gains exactly the three mode instructions 0x04 OR entry, 0x08 OR display, 0x20 OR
  function, in this order.  After a failed \<open>SetMode\<close> a second flush (\<open>SetMode\<close> without
  setters) sends the values already mutated.
\<close>

theorem HD44780_SetMode_flush:
  "HD44780_SetMode modes (c, h) = spec_applyModes modes (c, h)
   \<and> fst (snd (HD44780_SetMode modes (c, h))) = foldl (\<lambda>x m. m x) c modes
   \<and> (bus_ready (bus (foldl (\<lambda>x m. m x) c modes)) \<and> pending h = [] \<longrightarrow>
        HD44780_SetMode modes (c, h)
          = (Ok (), foldl (\<lambda>x m. m x) c modes,
             h\<lparr>events := events h @ wire (bus (foldl (\<lambda>x m. m x) c modes))
                                         (mode_instructions (foldl (\<lambda>x m. m x) c modes))\<rparr>))
   \<and> (HD44780_SetMode modes (c, h) = (Err e, c1, h1) \<and> bus_ready (bus c1) \<and> pending h2 = [] \<longrightarrow>
        c1 = foldl (\<lambda>x m. m x) c modes
        \<and> HD44780_SetMode [] (c1, h2)
          = (Ok (), c1, h2\<lparr>events := events h2 @ wire (bus c1)
               (mode_instructions (foldl (\<lambda>x m. m x) c modes))\<rparr>))"
proof (intro conjI impI)
  show "HD44780_SetMode modes (c, h) = spec_applyModes modes (c, h)"
    by (rule HD44780_SetMode_spec)
  show "fst (snd (HD44780_SetMode modes (c, h))) = foldl (\<lambda>x m. m x) c modes"
    by (rule HD44780_SetMode_controller)
next
  assume "bus_ready (bus (foldl (\<lambda>x m. m x) c modes)) \<and> pending h = []"
  then show "HD44780_SetMode modes (c, h)
          = (Ok (), foldl (\<lambda>x m. m x) c modes,
             h\<lparr>events := events h @ wire (bus (foldl (\<lambda>x m. m x) c modes))
                                         (mode_instructions (foldl (\<lambda>x m. m x) c modes))\<rparr>)"
    by (simp add: HD44780_SetMode_quiet)
next
  assume a: "HD44780_SetMode modes (c, h) = (Err e, c1, h1) \<and> bus_ready (bus c1) \<and> pending h2 = []"
  with HD44780_SetMode_controller [of modes c h]
  show c1: "c1 = foldl (\<lambda>x m. m x) c modes" by simp
  from a have "bus_ready (bus (foldl (\<lambda>x m. m x) c1 []))" by simp
  from HD44780_SetMode_quiet [OF this, of h2] a c1
  show "HD44780_SetMode [] (c1, h2)
          = (Ok (), c1, h2\<lparr>events := events h2 @ wire (bus c1)
               (mode_instructions (foldl (\<lambda>x m. m x) c modes))\<rparr>)"
    by simp
qed

definition emulator_controller :: HD44780 where
  "emulator_controller = \<lparr>bus = GPIO4Bit emulator_bus, eMode = 0x00, dMode = 0x00, fMode = 0x00\<rparr>"

theorem HD44780_SetMode_flush_witness:
  "bus_ready (bus (emulator_controller\<lparr>eMode := 0x02, dMode := 0x04, fMode := 0x08\<rparr>))
   \<and> pending quiet_world = []
   \<and> HD44780_SetMode [EntryIncrement, DisplayOn, TwoLine] (emulator_controller, quiet_world)
       = (Ok (), emulator_controller\<lparr>eMode := 0x02, dMode := 0x04, fMode := 0x08\<rparr>,
          quiet_world\<lparr>events := wire (GPIO4Bit emulator_bus)
                                       [(False, 0x06), (False, 0x0C), (False, 0x28)]\<rparr>)
   \<and> HD44780_SetMode [EntryIncrement, DisplayOn, TwoLine]
         (emulator_controller, \<lparr>events = [], pending = [Some (TransportError 3)]\<rparr>)
       = (Err (TransportError 3), emulator_controller\<lparr>eMode := 0x02, dMode := 0x04, fMode := 0x08\<rparr>,
          quiet_world)
   \<and> HD44780_SetMode [] (emulator_controller\<lparr>eMode := 0x02, dMode := 0x04, fMode := 0x08\<rparr>, quiet_world)
       = (Ok (), emulator_controller\<lparr>eMode := 0x02, dMode := 0x04, fMode := 0x08\<rparr>,
          quiet_world\<lparr>events := wire (GPIO4Bit emulator_bus)
                                       [(False, 0x06), (False, 0x0C), (False, 0x28)]\<rparr>)"
proof -
  let ?ms = "[EntryIncrement, DisplayOn, TwoLine]"
  let ?c = "emulator_controller\<lparr>eMode := 0x02, dMode := 0x04, fMode := 0x08\<rparr>"
  have f: "foldl (\<lambda>x m. m x) emulator_controller ?ms = ?c"
    by (simp add: EntryIncrement_def DisplayOn_def TwoLine_def emulator_controller_def
        lcdEntryIncrement_def lcdDisplayOn_def lcd2Line_def)
  have r: "bus_ready (bus ?c)"
    by (simp add: emulator_controller_def emulator_bus_def wired_def)
  have q: "pending quiet_world = []"
    by (simp add: quiet_world_def)
  have m: "mode_instructions ?c = [(False, 0x06), (False, 0x0C), (False, 0x28)]"
    by (simp add: mode_instructions_def emulator_controller_def)
  have b: "bus ?c = GPIO4Bit emulator_bus"
    by (simp add: emulator_controller_def)
  have e: "HD44780_SetMode ?ms (emulator_controller, \<lparr>events = [], pending = [Some (TransportError 3)]\<rparr>)
           = (Err (TransportError 3), ?c, quiet_world)"
    by (simp add: HD44780_SetMode_spec spec_applyModes_def Let_def
        EntryIncrement_def DisplayOn_def TwoLine_def emulator_controller_def
        lcdEntryIncrement_def lcdDisplayOn_def lcd2Line_def
        GPIO4BitBus_Write_def pin_Write_def attempt_def emulator_bus_def quiet_world_def
        andThen_def Low_def High_def)
  from HD44780_SetMode_flush [of ?ms emulator_controller quiet_world, THEN conjunct2, THEN conjunct2,
         THEN conjunct1]
       HD44780_SetMode_flush [of ?ms emulator_controller
         "\<lparr>events = [], pending = [Some (TransportError 3)]\<rparr>" "TransportError 3" ?c quiet_world
         quiet_world, THEN conjunct2, THEN conjunct2, THEN conjunct2]
  show ?thesis
    unfolding f m b
    using r q e by (simp add: b) (simp add: quiet_world_def)
qed

section \<open>C4: the reading direction\<close>

definition entry_increment_set :: "byte \<Rightarrow> bool" where
  "entry_increment_set e = (e AND lcdEntryIncrement \<noteq> 0)"

definition entry_shift_set :: "byte \<Rightarrow> bool" where
  "entry_shift_set e = (e AND lcdEntryShiftOn \<noteq> 0)"

text \<open>
  The display that \<open>NewCharacterDisplay\<close> builds on the emulator's pins with no extra
  mode: entry increment and display on are the only feature bits set.
\<close>

definition emulator_display :: "int \<Rightarrow> int \<Rightarrow> CharacterDisplay" where
  "emulator_display cols rows =
     \<lparr>controller = emulator_controller\<lparr>eMode := 0x02, dMode := 0x04\<rparr>,
      BacklightBus = None, Cols = cols, Rows = rows, posn = \<lparr>col = 0, row = 0\<rparr>\<rparr>"

lemma and_2_bit: "((e::byte) AND 2 \<noteq> 0) = bit e 1"
proof -
  have "e AND 2 = push_bit 1 (of_bool (bit e 1))"
    by (rule bit_word_eqI) (auto simp: bit_simps bit_of_bool_iff)
  then show ?thesis by (cases "bit e 1") simp_all
qed

lemma and_1_bit: "((e::byte) AND 1 \<noteq> 0) = bit e 0"
  by (simp add: and_one_eq mod_2_eq_odd bit_0)

lemma isLeftToRight_bits: "isLeftToRight d = (bit (eMode (controller d)) 1 \<noteq> bit (eMode (controller d)) 0)"
proof -
  have a: "drop_bit 1 (eMode (controller d)) AND 1 = of_bool (bit (eMode (controller d)) 1)"
    by (rule bit_as_word)
  have b: "eMode (controller d) AND 1 = of_bool (bit (eMode (controller d)) 0)"
    using bit_as_word [of 0 "eMode (controller d)"] by simp
  show ?thesis
    unfolding isLeftToRight_def numeral_One a b
    by (cases "bit (eMode (controller d)) 1"; cases "bit (eMode (controller d)) 0") simp_all
qed

text \<open>
  Claim C4 as stated: left-to-right exactly when (increment bit set) XOR (shift bit set)
  is false.  It fails for entry mode 0x02 (increment, shift off): the XOR is true there and
  the display reads left to right.
\<close>

theorem isLeftToRight_xor_false_counterexample:
  "\<not> (isLeftToRight (emulator_display 16 2)
        = (\<not> (entry_increment_set (eMode (controller (emulator_display 16 2)))
               \<noteq> entry_shift_set (eMode (controller (emulator_display 16 2))))))"
  by (simp add: isLeftToRight_def emulator_display_def emulator_controller_def
      entry_increment_set_def entry_shift_set_def lcdEntryIncrement_def lcdEntryShiftOn_def)

text \<open>
  Claim C4, amended.  \<open>isLeftToRight\<close> is true exactly when (increment bit set) XOR (shift
  bit set) is true: increment with shift off and decrement with shift on read left to
  right, increment with shift on and decrement with shift off read right to left.
\<close>

theorem isLeftToRight_xor:
  "isLeftToRight d
     = (entry_increment_set (eMode (controller d)) \<noteq> entry_shift_set (eMode (controller d)))
   \<and> isLeftToRight (d\<lparr>controller := EntryShiftOff (EntryIncrement c)\<rparr>)
   \<and> isLeftToRight (d\<lparr>controller := EntryShiftOn (EntryDecrement c)\<rparr>)
   \<and> \<not> isLeftToRight (d\<lparr>controller := EntryShiftOn (EntryIncrement c)\<rparr>)
   \<and> \<not> isLeftToRight (d\<lparr>controller := EntryShiftOff (EntryDecrement c)\<rparr>)"
proof -
  have x: "isLeftToRight d
     = (entry_increment_set (eMode (controller d)) \<noteq> entry_shift_set (eMode (controller d)))" for d
    by (simp add: isLeftToRight_bits entry_increment_set_def entry_shift_set_def
        lcdEntryIncrement_def lcdEntryShiftOn_def and_2_bit and_1_bit)
  have s: "entry_increment_set (eMode (EntryShiftOff (EntryIncrement c)))"
    "\<not> entry_shift_set (eMode (EntryShiftOff (EntryIncrement c)))"
    "\<not> entry_increment_set (eMode (EntryShiftOn (EntryDecrement c)))"
    "entry_shift_set (eMode (EntryShiftOn (EntryDecrement c)))"
    "entry_increment_set (eMode (EntryShiftOn (EntryIncrement c)))"
    "entry_shift_set (eMode (EntryShiftOn (EntryIncrement c)))"
    "\<not> entry_increment_set (eMode (EntryShiftOff (EntryDecrement c)))"
    "\<not> entry_shift_set (eMode (EntryShiftOff (EntryDecrement c)))"
    by (simp_all add: entry_increment_set_def entry_shift_set_def lcdEntryIncrement_def
        lcdEntryShiftOn_def and_2_bit and_1_bit EntryShiftOff_def EntryShiftOn_def
        EntryIncrement_def EntryDecrement_def bit_simps bit_0 even_and_iff)
  show ?thesis
    by (simp add: x s)
qed

section \<open>The display on a ready bus\<close>

text \<open>
  \<open>performs m d ss d'\<close>: in every world, the method \<open>m\<close> on the display \<open>d\<close> returns what
  performing the steps \<open>ss\<close> returns, and when that is success it leaves the display \<open>d'\<close>
  and the world that the steps leave.
\<close>

definition performs ::
  "unit display_method \<Rightarrow> CharacterDisplay \<Rightarrow> step list \<Rightarrow> CharacterDisplay \<Rightarrow> bool" where
  "performs m d ss d' =
     (\<forall>h. fst (m (d, h)) = fst (perform ss h)
          \<and> (fst (perform ss h) = Ok () \<longrightarrow> snd (m (d, h)) = (d', snd (perform ss h))))"

lemma performs_at:
  "performs m d ss d' \<Longrightarrow>
   fst (m (d, h)) = fst (perform ss h)
   \<and> (fst (perform ss h) = Ok () \<longrightarrow> snd (m (d, h)) = (d', snd (perform ss h)))"
  by (simp add: performs_def)

lemma performsD:
  assumes "performs m d ss d'" and "m (d, h) = (Ok u, d1, h1)"
  shows "d1 = d' \<and> events h1 = events h @ trace ss \<and> perform ss h = (Ok (), h1)"
proof -
  from performs_at [OF assms(1), of h] assms(2) have ok: "fst (perform ss h) = Ok ()" by simp
  with performs_at [OF assms(1), of h] assms(2) have "(d1, h1) = (d', snd (perform ss h))" by simp
  with ok have p: "perform ss h = (Ok (), h1)" and d: "d1 = d'"
    by (cases "perform ss h", simp)+
  from perform_Ok [OF p] d p show ?thesis by simp
qed

lemma performs_quiet:
  assumes "performs m d ss d'" and "pending h = []"
  shows "m (d, h) = (Ok (), d', h\<lparr>events := events h @ trace ss\<rparr>)"
proof -
  from assms(2) have p: "perform ss h = (Ok (), h\<lparr>events := events h @ trace ss\<rparr>)"
    by (rule perform_quiet)
  with performs_at [OF assms(1), of h]
  have "fst (m (d, h)) = Ok ()" and "snd (m (d, h)) = (d', h\<lparr>events := events h @ trace ss\<rparr>)"
    by simp_all
  then show ?thesis by (cases "m (d, h)") simp
qed

lemma performs_andThen:
  assumes a: "performs m1 d s1 d1" and b: "performs m2 d1 s2 d2"
  shows "performs (andThen m1 (\<lambda>u. m2)) d (s1 @ s2) d2"
  unfolding performs_def
proof (intro allI)
  fix h
  obtain r h1 where p: "perform s1 h = (r, h1)" by (cases "perform s1 h")
  show "fst (andThen m1 (\<lambda>u. m2) (d, h)) = fst (perform (s1 @ s2) h)
        \<and> (fst (perform (s1 @ s2) h) = Ok () \<longrightarrow>
             snd (andThen m1 (\<lambda>u. m2) (d, h)) = (d2, snd (perform (s1 @ s2) h)))"
  proof (cases r)
    case (Ok u)
    with performs_at [OF a, of h] p have m1: "m1 (d, h) = (Ok (), d1, h1)"
      by (cases "m1 (d, h)") simp
    from performs_at [OF b, of h1] have "fst (m2 (d1, h1)) = fst (perform s2 h1)"
      and "fst (perform s2 h1) = Ok () \<longrightarrow> snd (m2 (d1, h1)) = (d2, snd (perform s2 h1))"
      by simp_all
    with m1 p Ok show ?thesis
      by (simp add: andThen_def perform_append)
  next
    case (Err e)
    with performs_at [OF a, of h] p have "fst (m1 (d, h)) = Err e" by simp
    with p Err show ?thesis
      by (cases "m1 (d, h)") (simp add: andThen_def perform_append)
  next
    case (Panic x)
    with p perform_no_panic [of s1 h x] show ?thesis by simp
  qed
qed

lemma performs_skip: "performs (\<lambda>(d, h). (Ok (), d, h)) d [] d"
  by (simp add: performs_def)

lemma performs_Write:
  assumes "bus_ready (bus (controller d))"
  shows "performs (on_controller (HD44780_Write rs v)) d (bus_steps (bus (controller d)) rs v) d"
  using assms
  by (simp add: performs_def on_controller_def HD44780_Write_perform split: prod.splits)

definition spec_rowOffset :: "int \<Rightarrow> int \<Rightarrow> byte" where
  "spec_rowOffset cols r =
     (if cols = 16 then [0, 64, 16, 80] else [0, 64, 20, 84]) ! nat (min r 3)"

lemma lcdRowOffset_nonneg: "0 \<le> r \<Longrightarrow> lcdRowOffset d r = Ok (spec_rowOffset (Cols d) r)"
  by (simp add: lcdRowOffset_def spec_rowOffset_def index_def min_def Let_def)

lemma lcdRowOffset_negative: "r < 0 \<Longrightarrow> lcdRowOffset d r = Panic (IndexOutOfRange r)"
  by (simp add: lcdRowOffset_def index_def Let_def)

definition clamp_row :: "CharacterDisplay \<Rightarrow> int \<Rightarrow> int" where
  "clamp_row d r = min r (Rows d - 1)"

definition set_cursor_instruction :: "CharacterDisplay \<Rightarrow> int \<Rightarrow> int \<Rightarrow> byte" where
  "set_cursor_instruction d cl r = 0x80 OR (word_of_int cl + spec_rowOffset (Cols d) (clamp_row d r))"

lemma CharacterDisplay_SetCursor_nonneg:
  assumes "0 \<le> clamp_row d rw"
  shows "CharacterDisplay_SetCursor cl rw (d, h)
         = on_controller (HD44780_Write False (set_cursor_instruction d cl rw))
             (d\<lparr>posn := \<lparr>col = cl, row = clamp_row d rw\<rparr>\<rparr>, h)"
proof -
  have c: "(if Rows d \<le> rw then Rows d - 1 else rw) = clamp_row d rw"
    by (simp add: clamp_row_def min_def)
  from assms show ?thesis
    by (simp add: CharacterDisplay_SetCursor_def Let_def c currentPosition_def lcdRowOffset_nonneg
        HD44780_SetCursor_def HD44780_WriteInstruction_def set_cursor_instruction_def
        lcdSetDDRamAddr_def)
qed

lemma CharacterDisplay_SetCursor_negative:
  assumes "clamp_row d rw < 0"
  shows "CharacterDisplay_SetCursor cl rw (d, h)
         = (Panic (IndexOutOfRange (clamp_row d rw)),
            d\<lparr>posn := \<lparr>col = cl, row = clamp_row d rw\<rparr>\<rparr>, h)"
proof -
  have c: "(if Rows d \<le> rw then Rows d - 1 else rw) = clamp_row d rw"
    by (simp add: clamp_row_def min_def)
  from assms show ?thesis
    by (simp add: CharacterDisplay_SetCursor_def Let_def c currentPosition_def lcdRowOffset_negative)
qed

lemma performs_SetCursor:
  assumes "bus_ready (bus (controller d))" and "0 \<le> clamp_row d rw"
  shows "performs (CharacterDisplay_SetCursor cl rw) d
           (bus_steps (bus (controller d)) False (set_cursor_instruction d cl rw))
           (d\<lparr>posn := \<lparr>col = cl, row = clamp_row d rw\<rparr>\<rparr>)"
  using assms
  by (simp add: performs_def CharacterDisplay_SetCursor_nonneg on_controller_def
      HD44780_Write_perform split: prod.splits)

section \<open>C7: SetCursor\<close>

text \<open>
  Claim C7 as stated: \<open>SetCursor\<close> clamps and never fails on the row, for every integer
  row.  A negative row is not clamped: the row-offset table is indexed with it and the
  call panics, here for row \<open>-1\<close> on a 16 x 2 display.
\<close>

theorem CharacterDisplay_SetCursor_negative_row_counterexample:
  "CharacterDisplay_SetCursor 0 (- 1) (emulator_display 16 2, quiet_world)
   = (Panic (IndexOutOfRange (- 1)),
      (emulator_display 16 2)\<lparr>posn := \<lparr>col = 0, row = - 1\<rparr>\<rparr>, quiet_world)"
  using CharacterDisplay_SetCursor_negative [of "emulator_display 16 2" "- 1" 0 quiet_world]
  by (simp add: clamp_row_def emulator_display_def)

text \<open>
  Claim C7, amended.  On a display with at least one row, for every integer column and
  every row that is not negative, \<open>SetCursor\<close> clamps a row beyond the last one to the last
  row, raises no error of its own, stores the column and the clamped row as the logical
  position, and writes the one instruction 0x80 OR (byte(col) + rowOffset(row)), where
  \<open>rowOffset\<close> indexes \<open>{0,64,16,80}\<close> when the column count is 16 and \<open>{0,64,20,84}\<close>
  otherwise, a row above 3 counting as row 3.  The only error it can return is the
  transport's.
\<close>

theorem CharacterDisplay_SetCursor_clamps:
  assumes "1 \<le> Rows d" and "0 \<le> rw"
  shows "CharacterDisplay_SetCursor cl rw (d, h)
           = on_controller
               (HD44780_WriteInstruction
                  (lcdSetDDRamAddr OR (word_of_int cl + spec_rowOffset (Cols d) (min rw (Rows d - 1)))))
               (d\<lparr>posn := \<lparr>col = cl, row = min rw (Rows d - 1)\<rparr>\<rparr>, h)
       \<and> posn (fst (snd (CharacterDisplay_SetCursor cl rw (d, h))))
           = \<lparr>col = cl, row = min rw (Rows d - 1)\<rparr>
       \<and> (bus_ready (bus (controller d)) \<and> pending h = [] \<longrightarrow>
            CharacterDisplay_SetCursor cl rw (d, h)
              = (Ok (), d\<lparr>posn := \<lparr>col = cl, row = min rw (Rows d - 1)\<rparr>\<rparr>,
                 h\<lparr>events := events h @ wire (bus (controller d))
                     [(False, 0x80 OR (word_of_int cl + spec_rowOffset (Cols d) (min rw (Rows d - 1))))]\<rparr>))
       \<and> lcdRowOffset d rw
           = Ok ((if Cols d = 16 then [0, 64, 16, 80] else [0, 64, 20, 84]) ! nat (min rw 3))"
proof -
  from assms have c: "0 \<le> clamp_row d rw" by (simp add: clamp_row_def)
  have e: "CharacterDisplay_SetCursor cl rw (d, h)
           = on_controller
               (HD44780_WriteInstruction
                  (lcdSetDDRamAddr OR (word_of_int cl + spec_rowOffset (Cols d) (min rw (Rows d - 1)))))
               (d\<lparr>posn := \<lparr>col = cl, row = min rw (Rows d - 1)\<rparr>\<rparr>, h)"
    using CharacterDisplay_SetCursor_nonneg [OF c, of cl h]
    by (simp add: set_cursor_instruction_def clamp_row_def HD44780_WriteInstruction_def
        lcdSetDDRamAddr_def)
  have p: "posn (fst (snd (CharacterDisplay_SetCursor cl rw (d, h))))
           = \<lparr>col = cl, row = min rw (Rows d - 1)\<rparr>"
    unfolding e by (simp add: on_controller_def split: prod.splits)
  have q: "CharacterDisplay_SetCursor cl rw (d, h)
              = (Ok (), d\<lparr>posn := \<lparr>col = cl, row = min rw (Rows d - 1)\<rparr>\<rparr>,
                 h\<lparr>events := events h @ wire (bus (controller d))
                     [(False, 0x80 OR (word_of_int cl + spec_rowOffset (Cols d) (min rw (Rows d - 1))))]\<rparr>)"
    if "bus_ready (bus (controller d))" and "pending h = []"
    using performs_quiet [OF performs_SetCursor [OF that(1) c, of cl] that(2)]
    by (simp add: set_cursor_instruction_def clamp_row_def wire_def)
  from assms(2) have t: "lcdRowOffset d rw
           = Ok ((if Cols d = 16 then [0, 64, 16, 80] else [0, 64, 20, 84]) ! nat (min rw 3))"
    by (simp add: lcdRowOffset_nonneg spec_rowOffset_def)
  from e p q t show ?thesis by blast
qed

theorem CharacterDisplay_SetCursor_clamps_witness:
  "(1::int) \<le> Rows (emulator_display 20 4) \<and> (0::int) \<le> 7
   \<and> bus_ready (bus (controller (emulator_display 20 4))) \<and> pending quiet_world = []
   \<and> CharacterDisplay_SetCursor 5 7 (emulator_display 20 4, quiet_world)
       = (Ok (), (emulator_display 20 4)\<lparr>posn := \<lparr>col = 5, row = 3\<rparr>\<rparr>,
          quiet_world\<lparr>events := wire (GPIO4Bit emulator_bus) [(False, 0xD9)]\<rparr>)
   \<and> lcdRowOffset (emulator_display 20 4) 7 = Ok 84"
proof -
  have r: "(1::int) \<le> Rows (emulator_display 20 4)" and n: "(0::int) \<le> 7"
    and b: "bus_ready (bus (controller (emulator_display 20 4)))" and q: "pending quiet_world = []"
    by (simp_all add: emulator_display_def emulator_controller_def emulator_bus_def wired_def
        quiet_world_def)
  from CharacterDisplay_SetCursor_clamps [OF r n, of 5 quiet_world, THEN conjunct2, THEN conjunct2]
    r n b q
  show ?thesis
    by (simp add: spec_rowOffset_def emulator_display_def emulator_controller_def quiet_world_def)
qed

section \<open>Clear in package hd44780\<close>

lemma performs_eq:
  assumes "\<And>h. m (d, h) = m' (d0, h)" and "performs m' d0 ss d'"
  shows "performs m d ss d'"
  using assms by (simp add: performs_def)





lemma isLeftToRight_posn [simp]: "isLeftToRight (d\<lparr>posn := x\<rparr>) = isLeftToRight d"
  by (simp add: isLeftToRight_def)










section \<open>Message in package hd44780\<close>

text \<open>
  The description of \<open>message\<close>, in its own words, as a list of controller actions:
  \<open>Put c r b\<close> writes the character \<open>b\<close> while the logical cursor is at column \<open>c\<close> of row
  \<open>r\<close>; \<open>Goto c r\<close> sets the cursor.  A newline byte gives a newline and is not written; any
  other byte is written, then the column moves by one in the reading direction, and a
  column at or beyond the column count, or below 0, gives a newline.  A newline goes to the
  next row (the last row at most), column 0 or the last column.
\<close>

datatype action = Put int int byte | Goto int int

definition spec_newline :: "bool \<Rightarrow> int \<Rightarrow> int \<Rightarrow> int \<times> int \<Rightarrow> (int \<times> int) \<times> action list" where
  "spec_newline ltr cols rows pos =
     (let c = (if ltr then 0 else cols - 1); r = min (snd pos + 1) (rows - 1)
      in ((c, r), [Goto c r]))"

definition spec_message_byte ::
  "bool \<Rightarrow> int \<Rightarrow> int \<Rightarrow> byte \<Rightarrow> int \<times> int \<Rightarrow> (int \<times> int) \<times> action list" where
  "spec_message_byte ltr cols rows b pos =
     (if b = 0x0A then spec_newline ltr cols rows pos
      else let c1 = (if ltr then fst pos + 1 else fst pos - 1)
           in if c1 \<ge> cols \<or> c1 < 0
              then (case spec_newline ltr cols rows (c1, snd pos) of
                      (pos', acts) \<Rightarrow> (pos', Put (fst pos) (snd pos) b # acts))
              else ((c1, snd pos), [Put (fst pos) (snd pos) b]))"

fun spec_message ::
  "bool \<Rightarrow> int \<Rightarrow> int \<Rightarrow> byte list \<Rightarrow> int \<times> int \<Rightarrow> (int \<times> int) \<times> action list" where
  "spec_message ltr cols rows [] pos = (pos, [])"
| "spec_message ltr cols rows (b # bs) pos =
     (case spec_message_byte ltr cols rows b pos of
        (pos1, acts1) \<Rightarrow>
          (case spec_message ltr cols rows bs pos1 of
             (pos2, acts2) \<Rightarrow> (pos2, acts1 @ acts2)))"

fun action_instruction :: "int \<Rightarrow> action \<Rightarrow> bool \<times> byte" where
  "action_instruction cols (Put c r b) = (True, b)"
| "action_instruction cols (Goto c r) = (False, 0x80 OR (word_of_int c + spec_rowOffset cols r))"

definition cursor :: "CharacterDisplay \<Rightarrow> int \<times> int" where
  "cursor d = (col (posn d), row (posn d))"

definition at_cursor :: "CharacterDisplay \<Rightarrow> int \<times> int \<Rightarrow> CharacterDisplay" where
  "at_cursor d pos = d\<lparr>posn := \<lparr>col = fst pos, row = snd pos\<rparr>\<rparr>"

definition message_steps :: "CharacterDisplay \<Rightarrow> action list \<Rightarrow> step list" where
  "message_steps d acts =
     steps_of (bus (controller d)) (map (action_instruction (Cols d)) acts)"

lemma message_steps_append:
  "message_steps d (xs @ ys) = message_steps d xs @ message_steps d ys"
  by (simp add: message_steps_def steps_of_def)

lemma message_steps_at_cursor [simp]: "message_steps (at_cursor d pos) acts = message_steps d acts"
  by (simp add: message_steps_def at_cursor_def)

lemma at_cursor_simps [simp]:
  "isLeftToRight (at_cursor d pos) = isLeftToRight d"
  "Cols (at_cursor d pos) = Cols d"
  "Rows (at_cursor d pos) = Rows d"
  "controller (at_cursor d pos) = controller d"
  "cursor (at_cursor d pos) = pos"
  "row (posn (at_cursor d pos)) = snd pos"
  "col (posn (at_cursor d pos)) = fst pos"
  "at_cursor (at_cursor d pos) pos' = at_cursor d pos'"
  by (simp_all add: at_cursor_def cursor_def)

lemma performs_Newline:
  assumes ready: "bus_ready (bus (controller d))" and rows: "1 \<le> Rows d" and row: "0 \<le> row (posn d)"
  shows "performs CharacterDisplay_Newline d
           (message_steps d (snd (spec_newline (isLeftToRight d) (Cols d) (Rows d) (cursor d))))
           (at_cursor d (fst (spec_newline (isLeftToRight d) (Cols d) (Rows d) (cursor d))))"
proof -
  let ?c = "if isLeftToRight d then 0 else Cols d - 1"
  from rows row have c: "0 \<le> clamp_row d (row (posn d) + 1)" by (simp add: clamp_row_def)
  have "performs (CharacterDisplay_SetCursor ?c (row (posn d) + 1)) d
          (message_steps d (snd (spec_newline (isLeftToRight d) (Cols d) (Rows d) (cursor d))))
          (at_cursor d (fst (spec_newline (isLeftToRight d) (Cols d) (Rows d) (cursor d))))"
    using performs_SetCursor [OF ready c, of ?c]
    by (simp add: spec_newline_def cursor_def at_cursor_def message_steps_def steps_of_def
        set_cursor_instruction_def clamp_row_def Let_def)
  then show ?thesis
    by (rule performs_eq [rotated]) (simp add: CharacterDisplay_Newline_def Let_def)
qed

lemma spec_newline_row:
  "1 \<le> rows \<Longrightarrow> 0 \<le> snd pos \<Longrightarrow> 0 \<le> snd (fst (spec_newline ltr cols rows pos))"
  by (simp add: spec_newline_def Let_def)

lemma spec_message_byte_row:
  "1 \<le> rows \<Longrightarrow> 0 \<le> snd pos \<Longrightarrow> 0 \<le> snd (fst (spec_message_byte ltr cols rows b pos))"
  by (simp add: spec_message_byte_def spec_newline_def Let_def)

lemma position_col_update: "q\<lparr>col := x\<rparr> = \<lparr>col = x, row = row q\<rparr>"
  by (cases q) simp

lemma performs_Message_byte:
  assumes ready: "bus_ready (bus (controller d))" and rows: "1 \<le> Rows d" and row: "0 \<le> row (posn d)"
  shows "performs (Message_byte b) d
           (message_steps d (snd (spec_message_byte (isLeftToRight d) (Cols d) (Rows d) b (cursor d))))
           (at_cursor d (fst (spec_message_byte (isLeftToRight d) (Cols d) (Rows d) b (cursor d))))"
proof (cases "b = 0x0A")
  case True
  with performs_Newline [OF assms] show ?thesis
    by (simp add: Message_byte_def spec_message_byte_def)
next
  case False
  let ?c1 = "if isLeftToRight d then col (posn d) + 1 else col (posn d) - 1"
  let ?d1 = "at_cursor d (?c1, row (posn d))"
  let ?after = "\<lambda>(d, h).
                let d' = (if isLeftToRight d
                          then d\<lparr>posn := (posn d)\<lparr>col := col (posn d) + 1\<rparr>\<rparr>
                          else d\<lparr>posn := (posn d)\<lparr>col := col (posn d) - 1\<rparr>\<rparr>)
                in if col (posn d') \<ge> Cols d' \<or> col (posn d') < 0
                   then CharacterDisplay_Newline (d', h)
                   else (Ok (), d', h)"
  have W: "performs (on_controller (HD44780_WriteChar b)) d
             (message_steps d [Put (col (posn d)) (row (posn d)) b]) d"
    using performs_Write [OF ready, of True b]
    by (simp add: HD44780_WriteChar_def message_steps_def steps_of_def)
  have d1: "\<And>h. ?after (d, h)
             = (if Cols d \<le> ?c1 \<or> ?c1 < 0 then CharacterDisplay_Newline (?d1, h) else (Ok (), ?d1, h))"
    by (simp add: at_cursor_def Let_def position_col_update)
  have A: "performs ?after d
             (message_steps d (if Cols d \<le> ?c1 \<or> ?c1 < 0
                then snd (spec_newline (isLeftToRight d) (Cols d) (Rows d) (?c1, row (posn d)))
                else []))
             (at_cursor d (if Cols d \<le> ?c1 \<or> ?c1 < 0
                then fst (spec_newline (isLeftToRight d) (Cols d) (Rows d) (?c1, row (posn d)))
                else (?c1, row (posn d))))"
  proof (cases "Cols d \<le> ?c1 \<or> ?c1 < 0")
    case True
    have r1: "bus_ready (bus (controller ?d1))" "1 \<le> Rows ?d1" "0 \<le> row (posn ?d1)"
      using ready rows row by simp_all
    have "performs CharacterDisplay_Newline ?d1
            (message_steps d (snd (spec_newline (isLeftToRight d) (Cols d) (Rows d) (?c1, row (posn d)))))
            (at_cursor d (fst (spec_newline (isLeftToRight d) (Cols d) (Rows d) (?c1, row (posn d)))))"
      using performs_Newline [OF r1]
      by simp
    then have "performs ?after d
            (message_steps d (snd (spec_newline (isLeftToRight d) (Cols d) (Rows d) (?c1, row (posn d)))))
            (at_cursor d (fst (spec_newline (isLeftToRight d) (Cols d) (Rows d) (?c1, row (posn d)))))"
      by (rule performs_eq [rotated]) (simp only: d1 True if_True)
    with True show ?thesis by simp
  next
    case False
    have "performs ?after d [] ?d1"
      unfolding performs_def by (simp only: d1 False if_False) simp
    with False show ?thesis by (simp add: message_steps_def steps_of_def)
  qed
  have M: "Message_byte b = andThen (on_controller (HD44780_WriteChar b)) (\<lambda>u. ?after)"
    using False by (simp add: Message_byte_def)
  have S: "message_steps d [Put (col (posn d)) (row (posn d)) b]
           @ message_steps d (if Cols d \<le> ?c1 \<or> ?c1 < 0
                then snd (spec_newline (isLeftToRight d) (Cols d) (Rows d) (?c1, row (posn d)))
                else [])
           = message_steps d (snd (spec_message_byte (isLeftToRight d) (Cols d) (Rows d) b (cursor d)))"
    using False
    by (simp add: spec_message_byte_def cursor_def Let_def message_steps_append [symmetric]
        split: prod.splits)
  have T: "(if Cols d \<le> ?c1 \<or> ?c1 < 0
                then fst (spec_newline (isLeftToRight d) (Cols d) (Rows d) (?c1, row (posn d)))
                else (?c1, row (posn d)))
           = fst (spec_message_byte (isLeftToRight d) (Cols d) (Rows d) b (cursor d))"
    using False
    by (simp add: spec_message_byte_def cursor_def Let_def split: prod.splits)
  from performs_andThen [OF W A]
  show ?thesis
    unfolding M S T .
qed

lemma run_all_Cons_andThen: "run_all (f # fs) = andThen f (\<lambda>u. run_all fs)"
  by (rule ext) (simp add: andThen_def split: prod.splits result.splits)

lemma at_cursor_cursor: "at_cursor d (cursor d) = d"
  by (simp add: at_cursor_def cursor_def)

lemma performs_Message_bytes:
  assumes "bus_ready (bus (controller d))" and "1 \<le> Rows d" and "0 \<le> row (posn d)"
  shows "performs (run_all (map Message_byte bs)) d
           (message_steps d (snd (spec_message (isLeftToRight d) (Cols d) (Rows d) bs (cursor d))))
           (at_cursor d (fst (spec_message (isLeftToRight d) (Cols d) (Rows d) bs (cursor d))))"
  using assms
proof (induction bs arbitrary: d)
  case Nil
  show ?case
    by (simp add: performs_def at_cursor_cursor message_steps_def steps_of_def)
next
  case (Cons b bs)
  let ?r = "spec_message_byte (isLeftToRight d) (Cols d) (Rows d) b (cursor d)"
  let ?d1 = "at_cursor d (fst ?r)"
  from Cons.prems have row1: "0 \<le> snd (fst ?r)"
    by (intro spec_message_byte_row) (simp_all add: cursor_def)
  have A: "performs (Message_byte b) d (message_steps d (snd ?r)) ?d1"
    by (rule performs_Message_byte [OF Cons.prems])
  have B: "performs (run_all (map Message_byte bs)) ?d1
             (message_steps d (snd (spec_message (isLeftToRight d) (Cols d) (Rows d) bs (fst ?r))))
             (at_cursor d (fst (spec_message (isLeftToRight d) (Cols d) (Rows d) bs (fst ?r))))"
    using Cons.IH [of ?d1] Cons.prems row1 by simp
  have S: "message_steps d (snd ?r)
           @ message_steps d (snd (spec_message (isLeftToRight d) (Cols d) (Rows d) bs (fst ?r)))
           = message_steps d (snd (spec_message (isLeftToRight d) (Cols d) (Rows d) (b # bs) (cursor d)))"
    by (simp add: message_steps_append [symmetric] split: prod.splits)
  have T: "fst (spec_message (isLeftToRight d) (Cols d) (Rows d) bs (fst ?r))
           = fst (spec_message (isLeftToRight d) (Cols d) (Rows d) (b # bs) (cursor d))"
    by (simp split: prod.splits)
  from performs_andThen [OF A B]
  show ?case
    unfolding list.map run_all_Cons_andThen S T .
qed

lemma snd_spec_message_Cons:
  "snd (spec_message ltr cols rows (b # bs) pos)
   = snd (spec_message_byte ltr cols rows b pos)
     @ snd (spec_message ltr cols rows bs (fst (spec_message_byte ltr cols rows b pos)))"
  by (simp split: prod.splits)

lemma spec_message_byte_characters:
  "map snd (filter fst (map (action_instruction cols) (snd (spec_message_byte ltr cols rows b pos))))
   = (if b = 0x0A then [] else [b])"
  by (simp add: spec_message_byte_def spec_newline_def Let_def)

lemma spec_message_characters:
  "map snd (filter fst (map (action_instruction cols) (snd (spec_message ltr cols rows bs pos))))
   = filter (\<lambda>b. b \<noteq> 0x0A) bs"
proof (induction bs arbitrary: pos)
  case Nil
  show ?case by simp
next
  case (Cons b bs)
  show ?case
    unfolding snd_spec_message_Cons map_append filter_append spec_message_byte_characters Cons.IH
    by simp
qed

text \<open>
  The display of package hd44780.
  On a ready display with at least one row and the cursor on a row that is not
  negative, every successful \<open>Message\<close> has sent exactly the instructions of the described
  byte-by-byte walk and leaves the cursor where the walk ends; without faults \<open>Message\<close>
  does succeed; and the characters written to the data register are exactly the bytes of
  the message other than the newline byte, in their order.
\<close>

lemma CharacterDisplay_Message_hd44780:
  assumes "bus_ready (bus (controller d))" and "1 \<le> Rows d" and "0 \<le> row (posn d)"
  shows "(CharacterDisplay_Message message (d, h) = (Ok u, d', h') \<longrightarrow>
            events h' = events h
              @ wire (bus (controller d))
                  (map (action_instruction (Cols d))
                     (snd (spec_message (isLeftToRight d) (Cols d) (Rows d)
                             (map of_char message) (cursor d))))
            \<and> d' = at_cursor d (fst (spec_message (isLeftToRight d) (Cols d) (Rows d)
                                      (map of_char message) (cursor d))))
       \<and> (pending h = [] \<longrightarrow> fst (CharacterDisplay_Message message (d, h)) = Ok ())
       \<and> map snd (filter fst (map (action_instruction (Cols d))
                     (snd (spec_message (isLeftToRight d) (Cols d) (Rows d)
                             (map of_char message) (cursor d)))))
           = filter (\<lambda>b. b \<noteq> 0x0A) (map of_char message)"
proof (intro conjI impI)
  let ?r = "spec_message (isLeftToRight d) (Cols d) (Rows d) (map of_char message) (cursor d)"
  have P: "performs (CharacterDisplay_Message message) d (message_steps d (snd ?r))
             (at_cursor d (fst ?r))"
    unfolding CharacterDisplay_Message_def by (rule performs_Message_bytes [OF assms])
  {
    assume ok: "CharacterDisplay_Message message (d, h) = (Ok u, d', h')"
    from performsD [OF P ok]
    show "events h' = events h
              @ wire (bus (controller d)) (map (action_instruction (Cols d)) (snd ?r))"
      and "d' = at_cursor d (fst ?r)"
      by (simp_all add: message_steps_def wire_steps_of)
  }
  {
    assume "pending h = []"
    from performs_quiet [OF P this]
    show "fst (CharacterDisplay_Message message (d, h)) = Ok ()" by simp
  }
  show "map snd (filter fst (map (action_instruction (Cols d)) (snd ?r)))
           = filter (\<lambda>b. b \<noteq> 0x0A) (map of_char message)"
    by (rule spec_message_characters)
qed

lemma CharacterDisplay_Message_hd44780_example:
  "bus_ready (bus (controller (emulator_display 4 2)))
   \<and> (1::int) \<le> Rows (emulator_display 4 2) \<and> (0::int) \<le> row (posn (emulator_display 4 2))
   \<and> isLeftToRight (emulator_display 4 2) \<and> cursor (emulator_display 4 2) = (0, 0)
   \<and> spec_message True 4 2 (map of_char [CHR ''A'', CHR ''B'', CHR 0x0A, CHR ''C'']) (0, 0)
       = ((1, 1), [Put 0 0 0x41, Put 1 0 0x42, Goto 0 1, Put 0 1 0x43])
   \<and> CharacterDisplay_Message [CHR ''A'', CHR ''B'', CHR 0x0A, CHR ''C'']
        (emulator_display 4 2, quiet_world)
       = (Ok (), (emulator_display 4 2)\<lparr>posn := \<lparr>col = 1, row = 1\<rparr>\<rparr>,
          quiet_world\<lparr>events := wire (GPIO4Bit emulator_bus)
                                       [(True, 0x41), (True, 0x42), (False, 0xC0), (True, 0x43)]\<rparr>)"
proof -
  let ?d = "emulator_display 4 2"
  let ?m = "[CHR ''A'', CHR ''B'', CHR 0x0A, CHR ''C'']"
  let ?r = "spec_message (isLeftToRight ?d) (Cols ?d) (Rows ?d) (map of_char ?m) (cursor ?d)"
  have b: "bus_ready (bus (controller ?d))" and r: "1 \<le> Rows ?d" and n: "0 \<le> row (posn ?d)"
    and c: "cursor ?d = (0, 0)" and cols: "Cols ?d = 4" "Rows ?d = 2"
    and bus: "bus (controller ?d) = GPIO4Bit emulator_bus"
    by (simp_all add: emulator_display_def emulator_controller_def emulator_bus_def wired_def
        cursor_def)
  have l: "isLeftToRight ?d = True"
    by (simp add: isLeftToRight_def emulator_display_def emulator_controller_def)
  have q: "pending quiet_world = []" and qe: "events quiet_world = []"
    by (simp_all add: quiet_world_def)
  have s: "spec_message True 4 2 (map of_char ?m) (0, 0)
       = ((1, 1), [Put 0 0 0x41, Put 1 0 0x42, Goto 0 1, Put 0 1 0x43])"
    by (simp add: spec_message_byte_def spec_newline_def Let_def)
  have E: "CharacterDisplay_Message ?m (?d, quiet_world)
           = (Ok (), at_cursor ?d (fst ?r),
              quiet_world\<lparr>events := events quiet_world @ trace (message_steps ?d (snd ?r))\<rparr>)"
    unfolding CharacterDisplay_Message_def
    by (rule performs_quiet [OF performs_Message_bytes [OF b r n] q])
  have w: "wire (bus (controller ?d)) (map (action_instruction (Cols ?d)) (snd ?r))
           = wire (GPIO4Bit emulator_bus) [(True, 0x41), (True, 0x42), (False, 0xC0), (True, 0x43)]"
    unfolding l c cols bus s by (simp add: spec_rowOffset_def)
  have a: "at_cursor ?d (fst ?r) = ?d\<lparr>posn := \<lparr>col = 1, row = 1\<rparr>\<rparr>"
    unfolding l c cols s by (simp add: at_cursor_def)
  from CharacterDisplay_Message_hd44780 [OF b r n, of ?m quiet_world "()" "at_cursor ?d (fst ?r)"
         "quiet_world\<lparr>events := events quiet_world @ trace (message_steps ?d (snd ?r))\<rparr>",
         THEN conjunct1, rule_format, OF E]
  have e: "events (quiet_world\<lparr>events := events quiet_world @ trace (message_steps ?d (snd ?r))\<rparr>)
           = wire (GPIO4Bit emulator_bus) [(True, 0x41), (True, 0x42), (False, 0xC0), (True, 0x43)]"
    unfolding w qe by simp
  then have t: "trace (message_steps ?d (snd ?r))
           = wire (GPIO4Bit emulator_bus) [(True, 0x41), (True, 0x42), (False, 0xC0), (True, 0x43)]"
    by (simp add: qe)
  have F: "CharacterDisplay_Message ?m (?d, quiet_world)
       = (Ok (), ?d\<lparr>posn := \<lparr>col = 1, row = 1\<rparr>\<rparr>,
          quiet_world\<lparr>events := wire (GPIO4Bit emulator_bus)
                                       [(True, 0x41), (True, 0x42), (False, 0xC0), (True, 0x43)]\<rparr>)"
    unfolding E a t qe by simp
  from b r n l c s F show ?thesis
    by (simp only: simp_thms)
qed

section \<open>C9: Close\<close>

lemma HD44780_lcdInit_quiet:
  assumes "bus_ready (bus c)" and "pending h = []"
  shows "HD44780_lcdInit (c, h)
         = (Ok (), c, h\<lparr>events := events h @ wire (bus c) [(False, 0x33), (False, 0x32)]\<rparr>)"
  using assms
  by (simp add: HD44780_lcdInit_def andThen_def HD44780_WriteInstruction_def HD44780_Write_quiet
      lcdInit_def lcdInit4bit_def wire_def)

lemma New_quiet:
  assumes "bus_ready b" and "pending h = []"
    and "bus (foldl (\<lambda>x m. m x) \<lparr>bus = b, eMode = 0, dMode = 0, fMode = 0\<rparr> modes) = b"
  shows "New b modes h
         = (Ok (foldl (\<lambda>x m. m x) \<lparr>bus = b, eMode = 0, dMode = 0, fMode = 0\<rparr> modes),
            h\<lparr>events := events h @ wire b [(False, 0x33), (False, 0x32)]
                  @ wire b (mode_instructions
                      (foldl (\<lambda>x m. m x) \<lparr>bus = b, eMode = 0, dMode = 0, fMode = 0\<rparr> modes))\<rparr>)"
  using assms
  by (simp add: New_def andThen_def HD44780_lcdInit_quiet HD44780_SetMode_quiet)

lemma default_modes:
  "foldl (\<lambda>x m. m x) \<lparr>bus = b, eMode = 0, dMode = 0, fMode = 0\<rparr> defaultModes
   = \<lparr>bus = b, eMode = 0x02, dMode = 0x04, fMode = 0\<rparr>"
  by (simp add: defaultModes_def FourBitMode_def OneLine_def Dots5x8_def EntryIncrement_def
      EntryShiftOff_def DisplayOn_def CursorOff_def BlinkOff_def lcd8BitMode_def lcd2Line_def
      lcd5x10Dots_def lcdEntryIncrement_def lcdEntryShiftOn_def lcdDisplayOn_def lcdCursorOn_def
      lcdBlinkOn_def)

definition construction_events :: "event list" where
  "construction_events =
     map PinDirectionOut [Pin 0, Pin 1, Pin 2, Pin 3, Pin 4, Pin 5, Pin 6]
     @ wire (GPIO4Bit emulator_bus) [(False, 0x33), (False, 0x32)]
     @ wire (GPIO4Bit emulator_bus) [(False, 0x06), (False, 0x0C), (False, 0x20)]
     @ [PinWrite (Pin 6) 0]"

lemma NewCharacterDisplay_emulator:
  "NewCharacterDisplay (Some (Pin 0)) (Some (Pin 1)) (Some (Pin 2)) (Some (Pin 3)) (Some (Pin 4))
     (Some (Pin 5)) (Some (Pin 6)) cols rows [] quiet_world
   = ((Some (emulator_display cols rows), Ok ()), quiet_world\<lparr>events := construction_events\<rparr>)"
proof -
  let ?h1 = "quiet_world\<lparr>events := map PinDirectionOut [Pin 0, Pin 1, Pin 2, Pin 3, Pin 4, Pin 5, Pin 6]\<rparr>"
  have dirs: "run_all
             (map (\<lambda>pin. case pin of None \<Rightarrow> (\<lambda>w. (Ok (), w)) | Some q \<Rightarrow> pin_SetDirection_Out q)
                  [Some (Pin 0), Some (Pin 1), Some (Pin 2), Some (Pin 3), Some (Pin 4),
                   Some (Pin 5), Some (Pin 6)]) quiet_world = (Ok (), ?h1)"
    by (simp add: pin_SetDirection_Out_def attempt_def quiet_world_def)
  have b: "\<lparr>RS = Some (Pin 0), EN = Some (Pin 1), D4 = Some (Pin 2), D5 = Some (Pin 3),
             D6 = Some (Pin 4), D7 = Some (Pin 5), Backlight = Some (Pin 6)\<rparr> = emulator_bus"
    by (simp add: emulator_bus_def)
  have r: "bus_ready (GPIO4Bit emulator_bus)"
    by (simp add: emulator_bus_def wired_def)
  have q: "pending ?h1 = []"
    by (simp add: quiet_world_def)
  have new: "New (GPIO4Bit emulator_bus) defaultModes ?h1
      = (Ok \<lparr>bus = GPIO4Bit emulator_bus, eMode = 0x02, dMode = 0x04, fMode = 0\<rparr>,
         ?h1\<lparr>events := events ?h1 @ wire (GPIO4Bit emulator_bus) [(False, 0x33), (False, 0x32)]
               @ wire (GPIO4Bit emulator_bus) [(False, 0x06), (False, 0x0C), (False, 0x20)]\<rparr>)"
    using New_quiet [OF r q, of defaultModes]
    by (simp add: default_modes mode_instructions_def)
  have e: "emulator_controller\<lparr>eMode := 0x02, dMode := 0x04\<rparr>
           = \<lparr>bus = GPIO4Bit emulator_bus, eMode = 0x02, dMode = 0x04, fMode = 0\<rparr>"
    by (simp add: emulator_controller_def)
  have bl: "Backlight emulator_bus = Some (Pin 6)"
    by (simp add: emulator_bus_def)
  have pq: "pending quiet_world = []"
    by (simp add: quiet_world_def)
  show ?thesis
    unfolding NewCharacterDisplay_def NewGPIO4Bit_def append_Nil2 dirs b
    using new
    by (simp add: on_controller_def HD44780_BacklightOn_def GPIO4BitBus_BacklightOn_def
        pin_Write_def attempt_def emulator_display_def e construction_events_def Low_def bl pq)
qed

lemma NewCharacterDisplay_no_backlight_bus:
  "(case fst (fst (NewCharacterDisplay rs en d4 d5 d6 d7 bl cols rows modes h)) of
      None \<Rightarrow> True | Some d \<Rightarrow> BacklightBus d = None)"
  by (simp add: NewCharacterDisplay_def on_controller_def split: prod.splits result.splits)

lemma CharacterDisplay_Close_no_backlight_bus:
  "fst (CharacterDisplay_Close (d\<lparr>BacklightBus := None\<rparr>, h)) \<noteq> Ok ()"
  by (simp add: CharacterDisplay_Close_def andThen_def on_controller_def
      split: prod.splits result.splits)

lemma GPIO4BitBus_Close_emulator:
  "pending h = [] \<Longrightarrow>
   GPIO4BitBus_Close emulator_bus h
   = (Ok (), h\<lparr>events := events h @ map PinClose [Pin 0, Pin 1, Pin 2, Pin 3, Pin 4, Pin 5, Pin 6]\<rparr>)"
  by (simp add: GPIO4BitBus_Close_def emulator_bus_def pin_Close_def attempt_def)

text \<open>
  Claim C9 fails on the code: \<open>Close\<close> calls \<open>Close\<close> on the backlight bus without asking
  whether there is one.  No display with a nil backlight bus can be closed successfully;
  every display that \<open>NewCharacterDisplay\<close> returns has a nil backlight bus; and the display
  built on the emulator's seven pins closes its seven lines and then panics with a nil
  dereference.
\<close>

theorem CharacterDisplay_Close_nil_backlight:
  "fst (CharacterDisplay_Close (d\<lparr>BacklightBus := None\<rparr>, h)) \<noteq> Ok ()
   \<and> (case fst (fst (NewCharacterDisplay rs en d4 d5 d6 d7 bl cols rows modes h0)) of
        None \<Rightarrow> True | Some x \<Rightarrow> BacklightBus x = None)
   \<and> NewCharacterDisplay (Some (Pin 0)) (Some (Pin 1)) (Some (Pin 2)) (Some (Pin 3)) (Some (Pin 4))
        (Some (Pin 5)) (Some (Pin 6)) 16 2 [] quiet_world
       = ((Some (emulator_display 16 2), Ok ()), quiet_world\<lparr>events := construction_events\<rparr>)
   \<and> CharacterDisplay_Close (emulator_display 16 2, quiet_world\<lparr>events := construction_events\<rparr>)
       = (Panic NilDereference, emulator_display 16 2,
          quiet_world\<lparr>events := construction_events
             @ map PinClose [Pin 0, Pin 1, Pin 2, Pin 3, Pin 4, Pin 5, Pin 6]\<rparr>)"
proof -
  have "CharacterDisplay_Close (emulator_display 16 2, quiet_world\<lparr>events := construction_events\<rparr>)
       = (Panic NilDereference, emulator_display 16 2,
          quiet_world\<lparr>events := construction_events
             @ map PinClose [Pin 0, Pin 1, Pin 2, Pin 3, Pin 4, Pin 5, Pin 6]\<rparr>)"
    by (simp add: CharacterDisplay_Close_def andThen_def on_controller_def HD44780_Close_def
        emulator_display_def emulator_controller_def GPIO4BitBus_Close_emulator quiet_world_def)
  with CharacterDisplay_Close_no_backlight_bus [of d h]
    NewCharacterDisplay_no_backlight_bus [of rs en d4 d5 d6 d7 bl cols rows modes h0]
    NewCharacterDisplay_emulator [of 16 2]
  show ?thesis by (simp only: simp_thms)
qed

section \<open>C10: the stored row stays on the display\<close>

text \<open>
  The operations of a caller of the display, and a run of a sequence of them.  An error is
  returned to the caller, who may go on; a panic ends the run.
\<close>

datatype display_op = DoHome | DoClear | DoNewline | DoSetCursor int int | DoMessage string

fun run_op :: "display_op \<Rightarrow> unit display_method" where
  "run_op DoHome = CharacterDisplay_Home"
| "run_op DoClear = CharacterDisplay_Clear"
| "run_op DoNewline = CharacterDisplay_Newline"
| "run_op (DoSetCursor cl rw) = CharacterDisplay_SetCursor cl rw"
| "run_op (DoMessage message) = CharacterDisplay_Message message"

fun run_ops :: "display_op list \<Rightarrow> CharacterDisplay \<times> hw \<Rightarrow> CharacterDisplay \<times> hw" where
  "run_ops [] s = s"
| "run_ops (x # xs) s =
     (case run_op x s of
        (Panic e, s') \<Rightarrow> s'
      | (Ok u, s') \<Rightarrow> run_ops xs s'
      | (Err e, s') \<Rightarrow> run_ops xs s')"

fun row_argument_ok :: "display_op \<Rightarrow> bool" where
  "row_argument_ok (DoSetCursor cl rw) = (0 \<le> rw)"
| "row_argument_ok x = True"

definition row_in_range :: "int \<Rightarrow> CharacterDisplay \<times> hw \<Rightarrow> bool" where
  "row_in_range n s = (Rows (fst s) = n \<and> 0 \<le> row (posn (fst s)) \<and> row (posn (fst s)) \<le> n - 1)"

lemma on_controller_display:
  "fst (snd (on_controller f (d, h))) = d\<lparr>controller := controller (fst (snd (on_controller f (d, h))))\<rparr>"
  by (simp add: on_controller_def split: prod.splits)

lemma on_controller_row_in_range:
  "row_in_range n (d, h) \<Longrightarrow> row_in_range n (snd (on_controller f (d, h)))"
  by (simp add: row_in_range_def on_controller_def split: prod.splits)

lemma SetCursor_row_in_range:
  assumes "1 \<le> n" and "Rows d = n" and "0 \<le> rw"
  shows "row_in_range n (snd (CharacterDisplay_SetCursor cl rw (d, h)))"
proof -
  from assms have c: "0 \<le> clamp_row d rw" "clamp_row d rw \<le> n - 1"
    by (simp_all add: clamp_row_def)
  have "row_in_range n (d\<lparr>posn := \<lparr>col = cl, row = clamp_row d rw\<rparr>\<rparr>, h)"
    using assms c by (simp add: row_in_range_def)
  from on_controller_row_in_range [OF this]
  show ?thesis
    by (simp add: CharacterDisplay_SetCursor_nonneg [OF c(1)])
qed

lemma Newline_row_in_range:
  assumes "1 \<le> n" and "row_in_range n (d, h)"
  shows "row_in_range n (snd (CharacterDisplay_Newline (d, h)))"
  using assms SetCursor_row_in_range [of n d "row (posn d) + 1"]
  by (simp add: CharacterDisplay_Newline_def Let_def row_in_range_def)

lemma Home_row_in_range:
  assumes "1 \<le> n" and "row_in_range n (d, h)"
  shows "row_in_range n (snd (CharacterDisplay_Home (d, h)))"
proof -
  from assms have "row_in_range n (currentPosition 0 0 d, h)"
    by (simp add: row_in_range_def currentPosition_def)
  from on_controller_row_in_range [OF this] show ?thesis
    by (simp add: CharacterDisplay_Home_def)
qed

lemma andThen_invariant:
  assumes "I s" and "\<And>s. I s \<Longrightarrow> I (snd (m s))" and "\<And>u s. I s \<Longrightarrow> I (snd (k u s))"
  shows "I (snd (andThen m k s))"
proof -
  obtain r s1 where e: "m s = (r, s1)" by (cases "m s")
  with assms(1) assms(2) [of s] have "I s1" by simp
  with e assms(3) show ?thesis
    by (cases r) (simp_all add: andThen_def)
qed

lemma run_all_invariant:
  assumes "I s" and "\<And>f s. f \<in> set fs \<Longrightarrow> I s \<Longrightarrow> I (snd (f s))"
  shows "I (snd (run_all fs s))"
  using assms
proof (induction fs arbitrary: s)
  case Nil
  then show ?case by simp
next
  case (Cons f fs)
  obtain r s1 where e: "f s = (r, s1)" by (cases "f s")
  with Cons.prems(1) Cons.prems(2) [of f s] have "I s1" by simp
  with Cons.IH [of s1] Cons.prems(2) e show ?case
    by (cases r) simp_all
qed

lemma Clear_row_in_range:
  assumes n: "1 \<le> n" and r: "row_in_range n (d, h)"
  shows "row_in_range n (snd (CharacterDisplay_Clear (d, h)))"
proof -
  from n r have 0: "row_in_range n (currentPosition 0 0 d, h)"
    by (simp add: row_in_range_def currentPosition_def)
  have "row_in_range n (snd (andThen (on_controller HD44780_Clear)
       (\<lambda>u. andThen (on_controller (HD44780_SetMode []))
          (\<lambda>u (d', h'). if \<not> isLeftToRight d'
                        then CharacterDisplay_SetCursor (Cols d' - 1) 0 (d', h')
                        else (Ok (), d', h')))
       (currentPosition 0 0 d, h)))"
  proof (rule andThen_invariant [where I = "row_in_range n", OF 0], goal_cases)
    case (1 s)
    then show ?case by (cases s) (simp add: on_controller_row_in_range)
  next
    case (2 u s)
    show ?case
    proof (rule andThen_invariant [where I = "row_in_range n", OF 2], goal_cases)
      case (1 s)
      then show ?case by (cases s) (simp add: on_controller_row_in_range)
    next
      case (2 u s)
      obtain d' h' where s: "s = (d', h')" by (cases s)
      with 2 n SetCursor_row_in_range [of n d' 0 "Cols d' - 1" h']
      show ?case by (simp add: row_in_range_def)
    qed
  qed
  then show ?thesis by (simp add: CharacterDisplay_Clear_def)
qed

lemma Message_byte_row_in_range:
  assumes n: "1 \<le> n" and r: "row_in_range n s"
  shows "row_in_range n (snd (Message_byte b s))"
proof (cases "b = of_char (CHR 0x0A)")
  case True
  with Newline_row_in_range [OF n] r show ?thesis
    by (cases s) (simp add: Message_byte_def)
next
  case False
  have "row_in_range n (snd (andThen (on_controller (HD44780_WriteChar b))
             (\<lambda>u (d, h).
                let d' = (if isLeftToRight d
                          then d\<lparr>posn := (posn d)\<lparr>col := col (posn d) + 1\<rparr>\<rparr>
                          else d\<lparr>posn := (posn d)\<lparr>col := col (posn d) - 1\<rparr>\<rparr>)
                in if col (posn d') \<ge> Cols d' \<or> col (posn d') < 0
                   then CharacterDisplay_Newline (d', h)
                   else (Ok (), d', h)) s))"
  proof (rule andThen_invariant [where I = "row_in_range n", OF r], goal_cases)
    case (1 s)
    then show ?case by (cases s) (simp add: on_controller_row_in_range)
  next
    case (2 u s)
    obtain d h where s: "s = (d, h)" by (cases s)
    let ?d' = "if isLeftToRight d
                          then d\<lparr>posn := (posn d)\<lparr>col := col (posn d) + 1\<rparr>\<rparr>
                          else d\<lparr>posn := (posn d)\<lparr>col := col (posn d) - 1\<rparr>\<rparr>"
    from 2 s have "row_in_range n (?d', h)" by (simp add: row_in_range_def)
    with Newline_row_in_range [OF n, of ?d' h] s show ?case
      by (simp add: Let_def)
  qed
  with False show ?thesis by (simp add: Message_byte_def)
qed

lemma Message_row_in_range:
  assumes "1 \<le> n" and "row_in_range n s"
  shows "row_in_range n (snd (CharacterDisplay_Message message s))"
  unfolding CharacterDisplay_Message_def
  by (rule run_all_invariant [where I = "row_in_range n", OF assms(2)])
     (auto simp: Message_byte_row_in_range [OF assms(1)])

lemma run_op_row_in_range:
  assumes "1 \<le> n" and "row_in_range n s" and "row_argument_ok x"
  shows "row_in_range n (snd (run_op x s))"
proof (cases x)
  case DoHome
  with Home_row_in_range [OF assms(1)] assms(2) show ?thesis by (cases s) simp
next
  case DoClear
  with Clear_row_in_range [OF assms(1)] assms(2) show ?thesis by (cases s) simp
next
  case DoNewline
  with Newline_row_in_range [OF assms(1)] assms(2) show ?thesis by (cases s) simp
next
  case (DoSetCursor cl rw)
  with assms SetCursor_row_in_range [of n "fst s" rw cl "snd s"] show ?thesis
    by (simp add: row_in_range_def)
next
  case (DoMessage m)
  with Message_row_in_range [OF assms(1,2)] show ?thesis by simp
qed

lemma run_ops_row_in_range:
  assumes "1 \<le> n" and "row_in_range n s" and "list_all row_argument_ok xs"
  shows "row_in_range n (run_ops xs s)"
  using assms
proof (induction xs arbitrary: s)
  case Nil
  then show ?case by simp
next
  case (Cons x xs)
  obtain r s1 where e: "run_op x s = (r, s1)" by (cases "run_op x s")
  from Cons.prems run_op_row_in_range [of n s x] e have "row_in_range n s1" by simp
  with Cons.IH [of s1] Cons.prems e show ?case
    by (cases r) simp_all
qed

subsection \<open>The same for package characterdisplay\<close>

fun characterdisplay_run_op ::
  "'c Controller \<Rightarrow> display_op \<Rightarrow> 'c Display \<Rightarrow> unit result \<times> 'c Display" where
  "characterdisplay_run_op K DoHome = characterdisplay_Home K"
| "characterdisplay_run_op K DoClear = characterdisplay_Clear K"
| "characterdisplay_run_op K DoNewline = characterdisplay_Newline K"
| "characterdisplay_run_op K (DoSetCursor cl rw) = characterdisplay_SetCursor K cl rw"
| "characterdisplay_run_op K (DoMessage message) = characterdisplay_Message K message"

fun characterdisplay_run_ops :: "'c Controller \<Rightarrow> display_op list \<Rightarrow> 'c Display \<Rightarrow> 'c Display" where
  "characterdisplay_run_ops K [] d = d"
| "characterdisplay_run_ops K (x # xs) d =
     (case characterdisplay_run_op K x d of
        (Panic e, d') \<Rightarrow> d'
      | (Ok u, d') \<Rightarrow> characterdisplay_run_ops K xs d'
      | (Err e, d') \<Rightarrow> characterdisplay_run_ops K xs d')"

text \<open>A controller of fixed geometry: no method changes what \<open>Rows()\<close> returns.\<close>

definition keeps_rows :: "'c Controller \<Rightarrow> bool" where
  "keeps_rows K =
     (\<forall>c. (\<forall>b. RowsOf K (snd (WriteChar K b c)) = RowsOf K c)
          \<and> (\<forall>x y. RowsOf K (snd (SetCursor K x y c)) = RowsOf K c)
          \<and> RowsOf K (snd (Home K c)) = RowsOf K c
          \<and> RowsOf K (snd (Clear K c)) = RowsOf K c)"

definition rows_respected :: "'c Controller \<Rightarrow> int \<Rightarrow> 'c Display \<Rightarrow> bool" where
  "rows_respected K n d = (RowsOf K (ctl d) = n \<and> 0 \<le> row (p d) \<and> row (p d) \<le> n - 1)"

text \<open>A test double for the controller: it records the calls it receives.\<close>

datatype call = WriteCharCall byte | SetCursorCall int int | HomeCall | ClearCall | CloseCall

definition recorder :: "int \<Rightarrow> int \<Rightarrow> bool \<Rightarrow> (call list) Controller" where
  "recorder cols rows ltr =
     \<lparr>WriteChar = (\<lambda>b calls. (Ok (), calls @ [WriteCharCall b])),
      SetCursor = (\<lambda>cl rw calls. (Ok (), calls @ [SetCursorCall cl rw])),
      IsLeftToRight = (\<lambda>calls. ltr),
      ColsOf = (\<lambda>calls. cols),
      RowsOf = (\<lambda>calls. rows),
      Home = (\<lambda>calls. (Ok (), calls @ [HomeCall])),
      Clear = (\<lambda>calls. (Ok (), calls @ [ClearCall])),
      Close = (\<lambda>calls. (Ok (), calls @ [CloseCall]))\<rparr>"

lemma keeps_rows_WriteChar: "keeps_rows K \<Longrightarrow> RowsOf K (snd (WriteChar K b c)) = RowsOf K c"
  and keeps_rows_SetCursor: "keeps_rows K \<Longrightarrow> RowsOf K (snd (SetCursor K x y c)) = RowsOf K c"
  and keeps_rows_Home: "keeps_rows K \<Longrightarrow> RowsOf K (snd (Home K c)) = RowsOf K c"
  and keeps_rows_Clear: "keeps_rows K \<Longrightarrow> RowsOf K (snd (Clear K c)) = RowsOf K c"
  by (simp_all add: keeps_rows_def)

lemma on_ctl_rows_respected:
  assumes "RowsOf K (snd (f (ctl d))) = RowsOf K (ctl d)" and "rows_respected K n d"
  shows "rows_respected K n (snd (on_ctl f d))"
  using assms by (cases "f (ctl d)") (simp add: rows_respected_def on_ctl_def)

lemma characterdisplay_SetCursor_rows:
  assumes k: "keeps_rows K" and n: "1 \<le> n" and r: "RowsOf K (ctl d) = n" and rw: "0 \<le> rw"
  shows "rows_respected K n (snd (characterdisplay_SetCursor K cl rw d))"
proof -
  let ?rw = "if rw \<ge> RowsOf K (ctl d) then RowsOf K (ctl d) - 1 else rw"
  let ?d = "setCurrentPosition cl ?rw d"
  from n r rw have a: "rows_respected K n ?d"
    by (simp add: rows_respected_def setCurrentPosition_def)
  have "RowsOf K (snd (SetCursor K cl ?rw (ctl ?d))) = RowsOf K (ctl ?d)"
    by (rule keeps_rows_SetCursor [OF k])
  from on_ctl_rows_respected [of K "SetCursor K cl ?rw" ?d n, OF this a] show ?thesis
    by (simp add: characterdisplay_SetCursor_def Let_def)
qed

lemma characterdisplay_Newline_rows:
  assumes "keeps_rows K" and "1 \<le> n" and "rows_respected K n d"
  shows "rows_respected K n (snd (characterdisplay_Newline K d))"
  using assms characterdisplay_SetCursor_rows [of K n d "row (p d) + 1"]
  by (simp add: characterdisplay_Newline_def Let_def rows_respected_def)

lemma characterdisplay_Home_rows:
  assumes k: "keeps_rows K" and n: "1 \<le> n" and r: "rows_respected K n d"
  shows "rows_respected K n (snd (characterdisplay_Home K d))"
proof -
  let ?d = "setCurrentPosition 0 0 d"
  from n r have a: "rows_respected K n ?d"
    by (simp add: rows_respected_def setCurrentPosition_def)
  have "RowsOf K (snd (Home K (ctl ?d))) = RowsOf K (ctl ?d)"
    by (rule keeps_rows_Home [OF k])
  from on_ctl_rows_respected [of K "Home K" ?d n, OF this a] show ?thesis
    by (simp add: characterdisplay_Home_def)
qed

lemma characterdisplay_Clear_rows:
  assumes k: "keeps_rows K" and n: "1 \<le> n" and r: "rows_respected K n d"
  shows "rows_respected K n (snd (characterdisplay_Clear K d))"
proof -
  from n r have 0: "rows_respected K n (setCurrentPosition 0 0 d)"
    by (simp add: rows_respected_def setCurrentPosition_def)
  show ?thesis
    unfolding characterdisplay_Clear_def
  proof (rule andThen_invariant [where I = "rows_respected K n", OF 0], goal_cases)
    case (1 s)
    have "RowsOf K (snd (Clear K (ctl s))) = RowsOf K (ctl s)"
      by (rule keeps_rows_Clear [OF k])
    from on_ctl_rows_respected [of K "Clear K" s n, OF this 1] show ?case .
  next
    case (2 u s)
    with k n characterdisplay_SetCursor_rows [of K n s 0 "ColsOf K (ctl s) - 1"]
    show ?case by (simp add: rows_respected_def)
  qed
qed

lemma characterdisplay_Message_byte_rows:
  assumes k: "keeps_rows K" and n: "1 \<le> n" and r: "rows_respected K n d"
  shows "rows_respected K n (snd (characterdisplay_Message_byte K b d))"
proof (cases "b = of_char (CHR 0x0A)")
  case True
  with characterdisplay_Newline_rows [OF k n r] show ?thesis
    by (simp add: characterdisplay_Message_byte_def)
next
  case False
  have "rows_respected K n (snd (andThen (on_ctl (WriteChar K b))
             (\<lambda>u d.
                let d' = (if IsLeftToRight K (ctl d)
                          then d\<lparr>p := (p d)\<lparr>col := col (p d) + 1\<rparr>\<rparr>
                          else d\<lparr>p := (p d)\<lparr>col := col (p d) - 1\<rparr>\<rparr>)
                in if col (p d') \<ge> ColsOf K (ctl d') \<or> col (p d') < 0
                   then characterdisplay_Newline K d'
                   else (Ok (), d')) d))"
  proof (rule andThen_invariant [where I = "rows_respected K n", OF r], goal_cases)
    case (1 s)
    have "RowsOf K (snd (WriteChar K b (ctl s))) = RowsOf K (ctl s)"
      by (rule keeps_rows_WriteChar [OF k])
    from on_ctl_rows_respected [of K "WriteChar K b" s n, OF this 1] show ?case .
  next
    case (2 u s)
    let ?d' = "if IsLeftToRight K (ctl s)
                          then s\<lparr>p := (p s)\<lparr>col := col (p s) + 1\<rparr>\<rparr>
                          else s\<lparr>p := (p s)\<lparr>col := col (p s) - 1\<rparr>\<rparr>"
    from 2 have "rows_respected K n ?d'" by (simp add: rows_respected_def)
    with characterdisplay_Newline_rows [OF k n, of ?d'] show ?case
      by (simp add: Let_def)
  qed
  with False show ?thesis by (simp add: characterdisplay_Message_byte_def)
qed

lemma characterdisplay_run_op_rows:
  assumes k: "keeps_rows K" and n: "1 \<le> n" and r: "rows_respected K n d" and a: "row_argument_ok x"
  shows "rows_respected K n (snd (characterdisplay_run_op K x d))"
proof (cases x)
  case DoHome
  with characterdisplay_Home_rows [OF k n r] show ?thesis by simp
next
  case DoClear
  with characterdisplay_Clear_rows [OF k n r] show ?thesis by simp
next
  case DoNewline
  with characterdisplay_Newline_rows [OF k n r] show ?thesis by simp
next
  case (DoSetCursor cl rw)
  with a r characterdisplay_SetCursor_rows [OF k n, of d rw cl] show ?thesis
    by (simp add: rows_respected_def)
next
  case (DoMessage m)
  have "rows_respected K n (snd (run_all (map (characterdisplay_Message_byte K) (map of_char m)) d))"
    by (rule run_all_invariant [where I = "rows_respected K n", OF r])
       (auto simp: characterdisplay_Message_byte_rows [OF k n])
  with DoMessage show ?thesis by (simp add: characterdisplay_Message_def)
qed

lemma characterdisplay_run_ops_rows:
  assumes "keeps_rows K" and "1 \<le> n" and "rows_respected K n d" and "list_all row_argument_ok xs"
  shows "rows_respected K n (characterdisplay_run_ops K xs d)"
  using assms
proof (induction xs arbitrary: d)
  case Nil
  then show ?case by simp
next
  case (Cons x xs)
  obtain r d1 where e: "characterdisplay_run_op K x d = (r, d1)"
    by (cases "characterdisplay_run_op K x d")
  from Cons.prems characterdisplay_run_op_rows [of K n d x] e have "rows_respected K n d1" by simp
  with Cons.IH [of d1] Cons.prems e show ?case
    by (cases r) simp_all
qed

text \<open>
  Claim C10.  On a display with at least one row whose stored row is on the display, after
  every sequence of \<open>Home\<close>, \<open>Clear\<close>, \<open>Newline\<close>, \<open>SetCursor\<close> and \<open>Message\<close> whose
  explicit row arguments are not negative, whatever the transport does, the stored row is
  still at most Rows - 1 (and not negative, and Rows is unchanged); \<open>Newline\<close> on the last
  row leaves the cursor on the last row, and returns nil when the transport has no fault.
  This holds for the display of package hd44780 and, over every controller that keeps what
  \<open>Rows()\<close> returns, for the display of package characterdisplay.
\<close>

theorem row_stays_in_range:
  "(1 \<le> Rows d \<and> 0 \<le> row (posn d) \<and> row (posn d) \<le> Rows d - 1 \<and> list_all row_argument_ok ops \<longrightarrow>
      Rows (fst (run_ops ops (d, h))) = Rows d
      \<and> 0 \<le> row (posn (fst (run_ops ops (d, h))))
      \<and> row (posn (fst (run_ops ops (d, h)))) \<le> Rows d - 1)
   \<and> (1 \<le> Rows d \<and> row (posn d) = Rows d - 1 \<longrightarrow>
        row (posn (fst (snd (CharacterDisplay_Newline (d, h))))) = Rows d - 1)
   \<and> (1 \<le> Rows d \<and> row (posn d) = Rows d - 1 \<and> bus_ready (bus (controller d)) \<and> pending h = [] \<longrightarrow>
        fst (CharacterDisplay_Newline (d, h)) = Ok ())
   \<and> (keeps_rows K \<and> 1 \<le> RowsOf K (ctl e) \<and> 0 \<le> row (p e) \<and> row (p e) \<le> RowsOf K (ctl e) - 1
        \<and> list_all row_argument_ok ops \<longrightarrow>
        RowsOf K (ctl (characterdisplay_run_ops K ops e)) = RowsOf K (ctl e)
        \<and> 0 \<le> row (p (characterdisplay_run_ops K ops e))
        \<and> row (p (characterdisplay_run_ops K ops e)) \<le> RowsOf K (ctl e) - 1)
   \<and> (keeps_rows K \<and> 1 \<le> RowsOf K (ctl e) \<and> row (p e) = RowsOf K (ctl e) - 1 \<longrightarrow>
        row (p (snd (characterdisplay_Newline K e))) = RowsOf K (ctl e) - 1)"
proof (intro conjI impI)
  assume a: "1 \<le> Rows d \<and> 0 \<le> row (posn d) \<and> row (posn d) \<le> Rows d - 1 \<and> list_all row_argument_ok ops"
  then have "row_in_range (Rows d) (d, h)" by (simp add: row_in_range_def)
  with a have r: "row_in_range (Rows d) (run_ops ops (d, h))"
    by (intro run_ops_row_in_range) simp_all
  from r show "Rows (fst (run_ops ops (d, h))) = Rows d" by (simp add: row_in_range_def)
  from r show "0 \<le> row (posn (fst (run_ops ops (d, h))))" by (simp add: row_in_range_def)
  from r show "row (posn (fst (run_ops ops (d, h)))) \<le> Rows d - 1" by (simp add: row_in_range_def)
next
  assume a: "1 \<le> Rows d \<and> row (posn d) = Rows d - 1"
  then have c: "clamp_row d (row (posn d) + 1) = Rows d - 1" "0 \<le> clamp_row d (row (posn d) + 1)"
    by (simp_all add: clamp_row_def)
  show "row (posn (fst (snd (CharacterDisplay_Newline (d, h))))) = Rows d - 1"
    by (simp add: CharacterDisplay_Newline_def Let_def CharacterDisplay_SetCursor_nonneg [OF c(2)] c(1)
        on_controller_def split: prod.splits)
next
  assume a: "1 \<le> Rows d \<and> row (posn d) = Rows d - 1 \<and> bus_ready (bus (controller d)) \<and> pending h = []"
  then have "0 \<le> row (posn d)" by simp
  with a performs_quiet [OF performs_Newline, of d h]
  show "fst (CharacterDisplay_Newline (d, h)) = Ok ()" by simp
next
  assume a: "keeps_rows K \<and> 1 \<le> RowsOf K (ctl e) \<and> 0 \<le> row (p e) \<and> row (p e) \<le> RowsOf K (ctl e) - 1
        \<and> list_all row_argument_ok ops"
  then have "rows_respected K (RowsOf K (ctl e)) e" by (simp add: rows_respected_def)
  with a have r: "rows_respected K (RowsOf K (ctl e)) (characterdisplay_run_ops K ops e)"
    by (intro characterdisplay_run_ops_rows) simp_all
  from r show "RowsOf K (ctl (characterdisplay_run_ops K ops e)) = RowsOf K (ctl e)"
    by (simp add: rows_respected_def)
  from r show "0 \<le> row (p (characterdisplay_run_ops K ops e))" by (simp add: rows_respected_def)
  from r show "row (p (characterdisplay_run_ops K ops e)) \<le> RowsOf K (ctl e) - 1"
    by (simp add: rows_respected_def)
next
  assume a: "keeps_rows K \<and> 1 \<le> RowsOf K (ctl e) \<and> row (p e) = RowsOf K (ctl e) - 1"
  then show "row (p (snd (characterdisplay_Newline K e))) = RowsOf K (ctl e) - 1"
    by (simp add: characterdisplay_Newline_def characterdisplay_SetCursor_def Let_def on_ctl_def
        setCurrentPosition_def split: prod.splits)
qed

definition some_operations :: "display_op list" where
  "some_operations =
     [DoMessage ''ab'', DoNewline, DoNewline, DoSetCursor 3 7, DoClear, DoMessage ''cd'', DoHome,
      DoNewline]"

theorem row_stays_in_range_witness:
  "(1::int) \<le> Rows (emulator_display 16 2) \<and> (0::int) \<le> row (posn (emulator_display 16 2))
   \<and> row (posn (emulator_display 16 2)) \<le> Rows (emulator_display 16 2) - 1
   \<and> list_all row_argument_ok some_operations
   \<and> row (posn (fst (run_ops some_operations (emulator_display 16 2, quiet_world)))) \<le> 1
   \<and> bus_ready (bus (controller (emulator_display 16 2))) \<and> pending quiet_world = []
   \<and> row (posn ((emulator_display 16 2)\<lparr>posn := \<lparr>col = 0, row = 1\<rparr>\<rparr>)) = Rows (emulator_display 16 2) - 1
   \<and> row (posn (fst (snd (CharacterDisplay_Newline
              ((emulator_display 16 2)\<lparr>posn := \<lparr>col = 0, row = 1\<rparr>\<rparr>, quiet_world))))) = 1
   \<and> fst (CharacterDisplay_Newline
              ((emulator_display 16 2)\<lparr>posn := \<lparr>col = 0, row = 1\<rparr>\<rparr>, quiet_world)) = Ok ()
   \<and> keeps_rows (recorder 16 2 True)
   \<and> (1::int) \<le> RowsOf (recorder 16 2 True) (ctl (characterdisplay_New []))
   \<and> row (p (characterdisplay_run_ops (recorder 16 2 True) some_operations (characterdisplay_New []))) \<le> 1
   \<and> row (p (snd (characterdisplay_Newline (recorder 16 2 True)
                     ((characterdisplay_New [])\<lparr>p := \<lparr>col = 0, row = 1\<rparr>\<rparr>)))) = 1"
proof -
  let ?d = "emulator_display 16 2"
  let ?d1 = "?d\<lparr>posn := \<lparr>col = 0, row = 1\<rparr>\<rparr>"
  let ?K = "recorder 16 2 True"
  let ?e = "characterdisplay_New ([] :: call list)"
  let ?e1 = "?e\<lparr>p := \<lparr>col = 0, row = 1\<rparr>\<rparr>"
  have d: "Rows ?d = 2" "row (posn ?d) = 0" "bus_ready (bus (controller ?d))"
    "Rows ?d1 = 2" "row (posn ?d1) = 1" "bus_ready (bus (controller ?d1))"
    by (simp_all add: emulator_display_def emulator_controller_def emulator_bus_def wired_def)
  have q: "pending quiet_world = []" by (simp add: quiet_world_def)
  have o: "list_all row_argument_ok some_operations" by (simp add: some_operations_def)
  have k: "keeps_rows ?K" by (simp add: keeps_rows_def recorder_def)
  have e: "RowsOf ?K (ctl ?e) = 2" "row (p ?e) = 0" "RowsOf ?K (ctl ?e1) = 2" "row (p ?e1) = 1"
    by (simp_all add: recorder_def characterdisplay_New_def)
  from row_stays_in_range [of ?d some_operations quiet_world ?K ?e, THEN conjunct1]
       row_stays_in_range [of ?d1 some_operations quiet_world ?K ?e1, THEN conjunct2, THEN conjunct1]
       row_stays_in_range [of ?d1 some_operations quiet_world ?K ?e1, THEN conjunct2, THEN conjunct2,
         THEN conjunct1]
       row_stays_in_range [of ?d some_operations quiet_world ?K ?e, THEN conjunct2, THEN conjunct2,
         THEN conjunct2, THEN conjunct1]
       row_stays_in_range [of ?d1 some_operations quiet_world ?K ?e1, THEN conjunct2, THEN conjunct2,
         THEN conjunct2, THEN conjunct2]
  show ?thesis
    using d q o k e by simp
qed

section \<open>Clear and Message in package characterdisplay\<close>

text \<open>
  What the display of package characterdisplay asks of its controller, as calls:
  \<open>Put c r b\<close> is \<open>WriteChar(b)\<close>, \<open>Goto c r\<close> is \<open>SetCursor(c, r)\<close>.  \<open>answers\<close> is what the
  controller says about direction and geometry; \<open>keeps_answers\<close>: neither \<open>WriteChar\<close> nor
  \<open>SetCursor\<close> changes what it says.
\<close>

fun action_call :: "'c Controller \<Rightarrow> action \<Rightarrow> 'c \<Rightarrow> unit result \<times> 'c" where
  "action_call K (Put c r b) = WriteChar K b"
| "action_call K (Goto c r) = SetCursor K c r"

definition calls_of :: "'c Controller \<Rightarrow> action list \<Rightarrow> 'c \<Rightarrow> unit result \<times> 'c" where
  "calls_of K acts = run_all (map (action_call K) acts)"

definition answers :: "'c Controller \<Rightarrow> 'c \<Rightarrow> bool \<times> int \<times> int" where
  "answers K c = (IsLeftToRight K c, ColsOf K c, RowsOf K c)"

definition keeps_answers :: "'c Controller \<Rightarrow> bool" where
  "keeps_answers K =
     (\<forall>c. (\<forall>b. answers K (snd (WriteChar K b c)) = answers K c)
          \<and> (\<forall>x y. answers K (snd (SetCursor K x y c)) = answers K c))"

definition placed :: "'c \<Rightarrow> int \<times> int \<Rightarrow> 'c Display" where
  "placed c pos = \<lparr>ctl = c, p = \<lparr>col = fst pos, row = snd pos\<rparr>\<rparr>"

definition asks ::
  "'c Controller \<Rightarrow> bool \<times> int \<times> int \<Rightarrow> ('c Display \<Rightarrow> unit result \<times> 'c Display) \<Rightarrow>
   int \<times> int \<Rightarrow> action list \<Rightarrow> int \<times> int \<Rightarrow> bool" where
  "asks K g m pos acts pos' =
     (\<forall>c. answers K c = g \<longrightarrow>
          fst (m (placed c pos)) = fst (calls_of K acts c)
          \<and> (fst (calls_of K acts c) = Ok () \<longrightarrow>
               snd (m (placed c pos)) = placed (snd (calls_of K acts c)) pos'))"

lemma asks_at:
  "asks K g m pos acts pos' \<Longrightarrow> answers K c = g \<Longrightarrow>
   fst (m (placed c pos)) = fst (calls_of K acts c)
   \<and> (fst (calls_of K acts c) = Ok () \<longrightarrow>
        snd (m (placed c pos)) = placed (snd (calls_of K acts c)) pos')"
  by (simp add: asks_def)

lemma action_call_answers:
  "keeps_answers K \<Longrightarrow> answers K (snd (action_call K a c)) = answers K c"
  by (cases a) (simp_all add: keeps_answers_def)

lemma calls_of_answers:
  assumes "keeps_answers K"
  shows "answers K (snd (calls_of K acts c)) = answers K c"
proof -
  have "(\<lambda>c'. answers K c' = answers K c) (snd (run_all (map (action_call K) acts) c))"
  proof (rule run_all_invariant)
    show "answers K c = answers K c" by simp
  next
    fix f s
    assume "f \<in> set (map (action_call K) acts)" and "answers K s = answers K c"
    with action_call_answers [OF assms] show "answers K (snd (f s)) = answers K c" by auto
  qed
  then show ?thesis by (simp add: calls_of_def)
qed

lemma calls_of_append:
  "calls_of K (xs @ ys) c =
     (case calls_of K xs c of (Ok u, c') \<Rightarrow> calls_of K ys c'
      | (Err e, c') \<Rightarrow> (Err e, c') | (Panic x, c') \<Rightarrow> (Panic x, c'))"
  by (simp add: calls_of_def run_all_append split: prod.splits result.splits)

lemma asks_andThen:
  assumes k: "keeps_answers K" and a: "asks K g m1 pos a1 pos1" and b: "asks K g m2 pos1 a2 pos2"
  shows "asks K g (andThen m1 (\<lambda>u. m2)) pos (a1 @ a2) pos2"
  unfolding asks_def
proof (intro allI impI)
  fix c
  assume g: "answers K c = g"
  obtain r c1 where e: "calls_of K a1 c = (r, c1)" by (cases "calls_of K a1 c")
  from calls_of_answers [OF k, of a1 c] e g have g1: "answers K c1 = g" by simp
  show "fst (andThen m1 (\<lambda>u. m2) (placed c pos)) = fst (calls_of K (a1 @ a2) c)
        \<and> (fst (calls_of K (a1 @ a2) c) = Ok () \<longrightarrow>
             snd (andThen m1 (\<lambda>u. m2) (placed c pos)) = placed (snd (calls_of K (a1 @ a2) c)) pos2)"
  proof (cases r)
    case (Ok u)
    with asks_at [OF a g] e have m1: "m1 (placed c pos) = (Ok (), placed c1 pos1)"
      by (cases "m1 (placed c pos)") simp
    from asks_at [OF b g1] m1 e Ok show ?thesis
      by (simp add: andThen_def calls_of_append)
  next
    case (Err x)
    with asks_at [OF a g] e have "fst (m1 (placed c pos)) = Err x" by simp
    with e Err show ?thesis
      by (cases "m1 (placed c pos)") (simp add: andThen_def calls_of_append)
  next
    case (Panic x)
    with asks_at [OF a g] e have "fst (m1 (placed c pos)) = Panic x" by simp
    with e Panic show ?thesis
      by (cases "m1 (placed c pos)") (simp add: andThen_def calls_of_append)
  qed
qed

lemma asks_eq:
  assumes "\<And>c. answers K c = g \<Longrightarrow> m (placed c pos) = m' (placed c pos0)"
    and "asks K g m' pos0 acts pos'"
  shows "asks K g m pos acts pos'"
  using assms by (simp add: asks_def)

lemma asks_SetCursor:
  "asks K (ltr, cols, rows) (characterdisplay_SetCursor K cl rw) pos
     [Goto cl (min rw (rows - 1))] (cl, min rw (rows - 1))"
  unfolding asks_def
proof (intro allI impI)
  fix c
  assume "answers K c = (ltr, cols, rows)"
  then have r: "RowsOf K c = rows" by (simp add: answers_def)
  have E: "characterdisplay_SetCursor K cl rw (placed c pos)
           = (case SetCursor K cl (min rw (rows - 1)) c of
                (res, c') \<Rightarrow> (res, placed c' (cl, min rw (rows - 1))))"
    by (cases "rows \<le> rw")
       (simp_all add: characterdisplay_SetCursor_def Let_def placed_def r on_ctl_def
          setCurrentPosition_def min_def)
  obtain res c' where S: "SetCursor K cl (min rw (rows - 1)) c = (res, c')"
    by (cases "SetCursor K cl (min rw (rows - 1)) c")
  show "fst (characterdisplay_SetCursor K cl rw (placed c pos))
          = fst (calls_of K [Goto cl (min rw (rows - 1))] c)
        \<and> (fst (calls_of K [Goto cl (min rw (rows - 1))] c) = Ok () \<longrightarrow>
             snd (characterdisplay_SetCursor K cl rw (placed c pos))
               = placed (snd (calls_of K [Goto cl (min rw (rows - 1))] c)) (cl, min rw (rows - 1)))"
    unfolding E by (cases res) (simp_all add: S calls_of_def)
qed

lemma asks_Newline:
  "asks K (ltr, cols, rows) (characterdisplay_Newline K) pos
     (snd (spec_newline ltr cols rows pos)) (fst (spec_newline ltr cols rows pos))"
proof -
  let ?c = "if ltr then 0 else cols - 1"
  have "asks K (ltr, cols, rows) (characterdisplay_SetCursor K ?c (snd pos + 1)) pos
     (snd (spec_newline ltr cols rows pos)) (fst (spec_newline ltr cols rows pos))"
    using asks_SetCursor [of K ltr cols rows ?c "snd pos + 1" pos]
    by (simp add: spec_newline_def Let_def)
  then show ?thesis
    by (rule asks_eq [rotated])
       (simp add: characterdisplay_Newline_def Let_def answers_def placed_def)
qed

lemma asks_Message_byte:
  assumes k: "keeps_answers K"
  shows "asks K (ltr, cols, rows) (characterdisplay_Message_byte K b) pos
           (snd (spec_message_byte ltr cols rows b pos)) (fst (spec_message_byte ltr cols rows b pos))"
proof (cases "b = 0x0A")
  case True
  with asks_Newline [of K ltr cols rows pos] show ?thesis
    by (simp add: characterdisplay_Message_byte_def spec_message_byte_def)
next
  case False
  let ?c1 = "if ltr then fst pos + 1 else fst pos - 1"
  let ?after = "\<lambda>d.
                let d' = (if IsLeftToRight K (ctl d)
                          then d\<lparr>p := (p d)\<lparr>col := col (p d) + 1\<rparr>\<rparr>
                          else d\<lparr>p := (p d)\<lparr>col := col (p d) - 1\<rparr>\<rparr>)
                in if col (p d') \<ge> ColsOf K (ctl d') \<or> col (p d') < 0
                   then characterdisplay_Newline K d'
                   else (Ok (), d')"
  have W: "asks K (ltr, cols, rows) (on_ctl (WriteChar K b)) pos [Put (fst pos) (snd pos) b] pos"
    unfolding asks_def
  proof (intro allI impI)
    fix c
    show "fst (on_ctl (WriteChar K b) (placed c pos)) = fst (calls_of K [Put (fst pos) (snd pos) b] c)
          \<and> (fst (calls_of K [Put (fst pos) (snd pos) b] c) = Ok () \<longrightarrow>
               snd (on_ctl (WriteChar K b) (placed c pos))
                 = placed (snd (calls_of K [Put (fst pos) (snd pos) b] c)) pos)"
      by (cases "WriteChar K b c"; cases "fst (WriteChar K b c)")
         (simp_all add: on_ctl_def placed_def calls_of_def)
  qed
  have d1: "\<And>c. answers K c = (ltr, cols, rows) \<Longrightarrow>
             ?after (placed c pos)
             = (if cols \<le> ?c1 \<or> ?c1 < 0 then characterdisplay_Newline K (placed c (?c1, snd pos))
                else (Ok (), placed c (?c1, snd pos)))"
    by (simp add: placed_def answers_def Let_def position_col_update)
  have A: "asks K (ltr, cols, rows) ?after pos
             (if cols \<le> ?c1 \<or> ?c1 < 0 then snd (spec_newline ltr cols rows (?c1, snd pos)) else [])
             (if cols \<le> ?c1 \<or> ?c1 < 0 then fst (spec_newline ltr cols rows (?c1, snd pos))
              else (?c1, snd pos))"
  proof (cases "cols \<le> ?c1 \<or> ?c1 < 0")
    case True
    have "asks K (ltr, cols, rows) ?after pos
            (snd (spec_newline ltr cols rows (?c1, snd pos)))
            (fst (spec_newline ltr cols rows (?c1, snd pos)))"
      by (rule asks_eq [OF _ asks_Newline [of K ltr cols rows "(?c1, snd pos)"]])
         (simp only: d1 True if_True)
    with True show ?thesis by simp
  next
    case False
    have "asks K (ltr, cols, rows) ?after pos [] (?c1, snd pos)"
      unfolding asks_def
    proof (intro allI impI)
      fix c
      assume "answers K c = (ltr, cols, rows)"
      from d1 [OF this] False
      show "fst (?after (placed c pos)) = fst (calls_of K [] c)
            \<and> (fst (calls_of K [] c) = Ok () \<longrightarrow>
                 snd (?after (placed c pos)) = placed (snd (calls_of K [] c)) (?c1, snd pos))"
        by (simp only: if_False) (simp add: calls_of_def)
    qed
    with False show ?thesis by simp
  qed
  have M: "characterdisplay_Message_byte K b = andThen (on_ctl (WriteChar K b)) (\<lambda>u. ?after)"
    using False by (simp add: characterdisplay_Message_byte_def)
  have S: "[Put (fst pos) (snd pos) b]
           @ (if cols \<le> ?c1 \<or> ?c1 < 0 then snd (spec_newline ltr cols rows (?c1, snd pos)) else [])
           = snd (spec_message_byte ltr cols rows b pos)"
    using False by (simp add: spec_message_byte_def Let_def split: prod.splits)
  have T: "(if cols \<le> ?c1 \<or> ?c1 < 0 then fst (spec_newline ltr cols rows (?c1, snd pos))
              else (?c1, snd pos))
           = fst (spec_message_byte ltr cols rows b pos)"
    using False by (simp add: spec_message_byte_def Let_def split: prod.splits)
  from asks_andThen [OF k W A]
  show ?thesis
    unfolding M S T .
qed

lemma fst_spec_message_Cons:
  "fst (spec_message ltr cols rows (b # bs) pos)
   = fst (spec_message ltr cols rows bs (fst (spec_message_byte ltr cols rows b pos)))"
  by (simp split: prod.splits)

lemma asks_Message_bytes:
  assumes k: "keeps_answers K"
  shows "asks K (ltr, cols, rows) (run_all (map (characterdisplay_Message_byte K) bs)) pos
           (snd (spec_message ltr cols rows bs pos)) (fst (spec_message ltr cols rows bs pos))"
proof (induction bs arbitrary: pos)
  case Nil
  show ?case by (simp add: asks_def calls_of_def)
next
  case (Cons b bs)
  from asks_andThen [OF k asks_Message_byte [OF k, of ltr cols rows b pos] Cons.IH]
  show ?case
    unfolding list.map run_all_Cons_andThen snd_spec_message_Cons fst_spec_message_Cons .
qed

section \<open>C3: Message\<close>

lemma placed_here: "placed (ctl e) (col (p e), row (p e)) = e"
  by (cases e) (simp add: placed_def)

lemma characterdisplay_Message_asks:
  assumes k: "keeps_answers K" and g: "answers K (ctl e) = (ltr, cols, rows)"
  shows "fst (characterdisplay_Message K message e)
           = fst (calls_of K (snd (spec_message ltr cols rows (map of_char message)
                                     (col (p e), row (p e)))) (ctl e))"
    and "characterdisplay_Message K message e = (Ok u, e') \<Longrightarrow>
           calls_of K (snd (spec_message ltr cols rows (map of_char message)
                              (col (p e), row (p e)))) (ctl e) = (Ok (), ctl e')
           \<and> p e' = \<lparr>col = fst (fst (spec_message ltr cols rows (map of_char message)
                                        (col (p e), row (p e)))),
                      row = snd (fst (spec_message ltr cols rows (map of_char message)
                                        (col (p e), row (p e))))\<rparr>"
proof -
  let ?S = "spec_message ltr cols rows (map of_char message) (col (p e), row (p e))"
  from asks_at [OF asks_Message_bytes [OF k, of ltr cols rows "map of_char message"
                     "(col (p e), row (p e))"] g]
  have A: "fst (characterdisplay_Message K message e) = fst (calls_of K (snd ?S) (ctl e))"
    and B: "fst (calls_of K (snd ?S) (ctl e)) = Ok () \<longrightarrow>
              snd (characterdisplay_Message K message e) = placed (snd (calls_of K (snd ?S) (ctl e))) (fst ?S)"
    unfolding placed_here characterdisplay_Message_def by simp_all
  show "fst (characterdisplay_Message K message e) = fst (calls_of K (snd ?S) (ctl e))"
    by (rule A)
  assume ok: "characterdisplay_Message K message e = (Ok u, e')"
  with A B have "fst (calls_of K (snd ?S) (ctl e)) = Ok ()"
    and "e' = placed (snd (calls_of K (snd ?S) (ctl e))) (fst ?S)"
    by simp_all
  then show "calls_of K (snd ?S) (ctl e) = (Ok (), ctl e')
           \<and> p e' = \<lparr>col = fst (fst ?S), row = snd (fst ?S)\<rparr>"
    by (cases "calls_of K (snd ?S) (ctl e)") (simp add: placed_def)
qed

lemma keeps_answers_recorder: "keeps_answers (recorder cols rows ltr)"
  by (simp add: keeps_answers_def answers_def recorder_def)

text \<open>
  Claim C3: the behaviour of \<open>Message\<close> is equivalent to: for each byte of the message, a
  newline byte (0x0A) moves the cursor to the start of the next line (column 0 left to
  right, column Cols - 1 right to left; the row is the next one, clamped to the last);
  any other byte is written as a character, the logical column advances by one in the
  text direction, and when it leaves [0, Cols) a newline is performed.
  \<open>spec_message\<close> is this description; it yields the final cursor and the list of
  actions.  The \<open>Message\<close> of package hd44780 (on a ready bus, with at least one row and
  the cursor on a row that is not negative) puts exactly the instructions of these
  actions on the wires and ends with this cursor, and without faults it succeeds.  The
  \<open>Message\<close> of package characterdisplay (whose controller keeps answering the same
  direction and geometry) returns what the calls of these actions return on its
  controller, and on success it has made exactly these calls and ends with this cursor.
  In both, the characters written are the bytes of the message other than 0x0A, in order.
\<close>

theorem Message_refines:
  "(bus_ready (bus (controller d)) \<and> 1 \<le> Rows d \<and> 0 \<le> row (posn d) \<longrightarrow>
      (CharacterDisplay_Message message (d, h) = (Ok u, d', h') \<longrightarrow>
            events h' = events h
              @ wire (bus (controller d))
                  (map (action_instruction (Cols d))
                     (snd (spec_message (isLeftToRight d) (Cols d) (Rows d)
                             (map of_char message) (cursor d))))
            \<and> d' = at_cursor d (fst (spec_message (isLeftToRight d) (Cols d) (Rows d)
                                      (map of_char message) (cursor d))))
       \<and> (pending h = [] \<longrightarrow> fst (CharacterDisplay_Message message (d, h)) = Ok ()))
   \<and> (keeps_answers K \<and> answers K (ctl e) = (ltr, cols, rows) \<longrightarrow>
        fst (characterdisplay_Message K message e)
          = fst (calls_of K (snd (spec_message ltr cols rows (map of_char message)
                                    (col (p e), row (p e)))) (ctl e))
        \<and> (characterdisplay_Message K message e = (Ok u, e') \<longrightarrow>
             calls_of K (snd (spec_message ltr cols rows (map of_char message)
                                (col (p e), row (p e)))) (ctl e) = (Ok (), ctl e')
             \<and> p e' = \<lparr>col = fst (fst (spec_message ltr cols rows (map of_char message)
                                          (col (p e), row (p e)))),
                        row = snd (fst (spec_message ltr cols rows (map of_char message)
                                          (col (p e), row (p e))))\<rparr>))
   \<and> map snd (filter fst (map (action_instruction cols)
                 (snd (spec_message ltr cols rows (map of_char message) pos))))
       = filter (\<lambda>b. b \<noteq> 0x0A) (map of_char message)"
proof (intro conjI impI)
  assume a: "bus_ready (bus (controller d)) \<and> 1 \<le> Rows d \<and> 0 \<le> row (posn d)"
  then have b: "bus_ready (bus (controller d))" and r: "1 \<le> Rows d" and n: "0 \<le> row (posn d)"
    by simp_all
  {
    assume ok: "CharacterDisplay_Message message (d, h) = (Ok u, d', h')"
    from CharacterDisplay_Message_hd44780 [OF b r n, of message h u d' h', THEN conjunct1] ok
    show "events h' = events h
              @ wire (bus (controller d))
                  (map (action_instruction (Cols d))
                     (snd (spec_message (isLeftToRight d) (Cols d) (Rows d)
                             (map of_char message) (cursor d))))"
      and "d' = at_cursor d (fst (spec_message (isLeftToRight d) (Cols d) (Rows d)
                                      (map of_char message) (cursor d)))"
      by simp_all
  }
  {
    assume "pending h = []"
    with CharacterDisplay_Message_hd44780 [OF b r n, of message h u d' h', THEN conjunct2]
    show "fst (CharacterDisplay_Message message (d, h)) = Ok ()" by simp
  }
next
  assume a: "keeps_answers K \<and> answers K (ctl e) = (ltr, cols, rows)"
  then have k: "keeps_answers K" and g: "answers K (ctl e) = (ltr, cols, rows)" by simp_all
  show "fst (characterdisplay_Message K message e)
          = fst (calls_of K (snd (spec_message ltr cols rows (map of_char message)
                                    (col (p e), row (p e)))) (ctl e))"
    by (rule characterdisplay_Message_asks(1) [OF k g])
  {
    assume ok: "characterdisplay_Message K message e = (Ok u, e')"
    from characterdisplay_Message_asks(2) [OF k g ok]
    show "calls_of K (snd (spec_message ltr cols rows (map of_char message)
                                (col (p e), row (p e)))) (ctl e) = (Ok (), ctl e')"
      and "p e' = \<lparr>col = fst (fst (spec_message ltr cols rows (map of_char message)
                                          (col (p e), row (p e)))),
                        row = snd (fst (spec_message ltr cols rows (map of_char message)
                                          (col (p e), row (p e))))\<rparr>"
      by simp_all
  }
next
  show "map snd (filter fst (map (action_instruction cols)
                 (snd (spec_message ltr cols rows (map of_char message) pos))))
       = filter (\<lambda>b. b \<noteq> 0x0A) (map of_char message)"
    by (rule spec_message_characters)
qed

theorem Message_refines_witness:
  "bus_ready (bus (controller (emulator_display 4 2)))
   \<and> (1::int) \<le> Rows (emulator_display 4 2) \<and> (0::int) \<le> row (posn (emulator_display 4 2))
   \<and> isLeftToRight (emulator_display 4 2) \<and> cursor (emulator_display 4 2) = (0, 0)
   \<and> pending quiet_world = []
   \<and> spec_message True 4 2 (map of_char [CHR ''A'', CHR ''B'', CHR 0x0A, CHR ''C'']) (0, 0)
       = ((1, 1), [Put 0 0 0x41, Put 1 0 0x42, Goto 0 1, Put 0 1 0x43])
   \<and> CharacterDisplay_Message [CHR ''A'', CHR ''B'', CHR 0x0A, CHR ''C'']
        (emulator_display 4 2, quiet_world)
       = (Ok (), (emulator_display 4 2)\<lparr>posn := \<lparr>col = 1, row = 1\<rparr>\<rparr>,
          quiet_world\<lparr>events := wire (GPIO4Bit emulator_bus)
                                       [(True, 0x41), (True, 0x42), (False, 0xC0), (True, 0x43)]\<rparr>)
   \<and> keeps_answers (recorder 4 2 True)
   \<and> answers (recorder 4 2 True) (ctl (characterdisplay_New [])) = (True, 4, 2)
   \<and> characterdisplay_Message (recorder 4 2 True) [CHR ''A'', CHR ''B'', CHR 0x0A, CHR ''C'']
        (characterdisplay_New [])
       = (Ok (), \<lparr>ctl = [WriteCharCall 0x41, WriteCharCall 0x42, SetCursorCall 0 1,
                          WriteCharCall 0x43],
                   p = \<lparr>col = 1, row = 1\<rparr>\<rparr>)"
proof -
  let ?d = "emulator_display 4 2"
  let ?m = "[CHR ''A'', CHR ''B'', CHR 0x0A, CHR ''C'']"
  let ?K = "recorder 4 2 True"
  let ?e = "characterdisplay_New ([] :: call list)"
  let ?d' = "(emulator_display 4 2)\<lparr>posn := \<lparr>col = 1, row = 1\<rparr>\<rparr>"
  let ?h' = "quiet_world\<lparr>events := wire (GPIO4Bit emulator_bus)
                                       [(True, 0x41), (True, 0x42), (False, 0xC0), (True, 0x43)]\<rparr>"
  note X = CharacterDisplay_Message_hd44780_example
  have k: "keeps_answers ?K" by (rule keeps_answers_recorder)
  have g: "answers ?K (ctl ?e) = (True, 4, 2)"
    by (simp add: answers_def recorder_def)
  have q: "pending quiet_world = []" by (simp add: quiet_world_def)
  have pe: "(col (p ?e), row (p ?e)) = (0, 0)" and ce: "ctl ?e = []"
    by (simp_all add: characterdisplay_New_def)
  from X have s: "spec_message True 4 2 (map of_char ?m) (0, 0)
       = ((1, 1), [Put 0 0 0x41, Put 1 0 0x42, Goto 0 1, Put 0 1 0x43])"
    by simp
  have c: "calls_of ?K [Put 0 0 0x41, Put 1 0 0x42, Goto 0 1, Put 0 1 0x43] []
           = (Ok (), [WriteCharCall 0x41, WriteCharCall 0x42, SetCursorCall 0 1,
                      WriteCharCall 0x43])"
    by (simp add: calls_of_def andThen_def recorder_def)
  note T = Message_refines [of ?d ?m quiet_world "()" ?d' ?h' ?K ?e True 4 2]
  from T [THEN conjunct1] X q
  have hd: "fst (CharacterDisplay_Message ?m (?d, quiet_world)) = Ok ()"
    by simp
  from T [THEN conjunct2, THEN conjunct1, rule_format, OF conjI [OF k g], THEN conjunct1]
  have "fst (characterdisplay_Message ?K ?m ?e) = Ok ()"
    unfolding pe ce s by (simp add: c)
  then obtain e' where ok: "characterdisplay_Message ?K ?m ?e = (Ok (), e')"
    by (cases "characterdisplay_Message ?K ?m ?e") auto
  from Message_refines [of ?d ?m quiet_world "()" ?d' ?h' ?K ?e True 4 2 e',
         THEN conjunct2, THEN conjunct1, rule_format, OF conjI [OF k g],
         THEN conjunct2, rule_format, OF ok]
  have "ctl e' = [WriteCharCall 0x41, WriteCharCall 0x42, SetCursorCall 0 1, WriteCharCall 0x43]"
    and "p e' = \<lparr>col = 1, row = 1\<rparr>"
    unfolding pe ce s by (simp_all add: c)
  then have "e' = \<lparr>ctl = [WriteCharCall 0x41, WriteCharCall 0x42, SetCursorCall 0 1,
                          WriteCharCall 0x43], p = \<lparr>col = 1, row = 1\<rparr>\<rparr>"
    by (cases e') simp
  with ok have G: "characterdisplay_Message ?K ?m ?e
       = (Ok (), \<lparr>ctl = [WriteCharCall 0x41, WriteCharCall 0x42, SetCursorCall 0 1,
                          WriteCharCall 0x43], p = \<lparr>col = 1, row = 1\<rparr>\<rparr>)"
    by simp
  from X q k g G show ?thesis
    by (simp only: simp_thms)
qed

section \<open>C2: Clear\<close>

lemma Display_eq: "(e :: 'c Display) = \<lparr>ctl = ctl e, p = p e\<rparr>"
  by (cases e) simp






section \<open>C8: the mode bytes in memory\<close>

































end
